theory Spec2Isabelle
  imports Main "HOL-Library.Word" "HOL-Library.Signed_Division" "HOL-Library.Monad_Syntax"
begin

unbundle bit_operations_syntax

section \<open>Data model\<close>

subsection \<open>Frame (Frame.h)\<close>

text \<open>
  A \<open>TimePoint\<close> is the tick count of \<open>Clock::time_point\<close> since the clock's epoch and
  \<open>Microseconds\<close> is the count of a \<open>std::chrono::microseconds\<close>; both are signed 64-bit
  values, kept as 64-bit words and read with \<open>sint\<close> where the sign matters.  A
  default-constructed time point is the epoch, tick count 0.  \<open>size_t\<close> is a 64-bit word.
\<close>

type_synonym TimePoint = "64 word"
type_synonym Microseconds = "64 word"
type_synonym size_t = "64 word"

record Frame =
  m_number :: "32 word"
  m_r :: "8 word"
  m_g :: "8 word"
  m_b :: "8 word"
  m_processingStart :: TimePoint
  m_renderStart :: TimePoint
  m_renderEnd :: TimePoint
  m_copiedFromGPU :: TimePoint
  m_writeEnd :: TimePoint
  m_scanoutStart :: TimePoint
  m_frameReceived :: TimePoint
  m_readEnd :: TimePoint
  m_copiedToGPU :: TimePoint
  m_duplicateReceives :: size_t

text \<open>
  The constructor \<open>Frame::Frame(uint32_t number)\<close>.  The three channel expressions are
  evaluated in 32-bit unsigned arithmetic and then narrowed to \<open>uint8_t\<close>.
\<close>

definition Frame :: "32 word \<Rightarrow> Frame" where
  "Frame number =
     \<lparr> m_number = number,
       m_r = ucast (drop_bit 8 (number AND 0xF00) * 16 + 8 :: 32 word),
       m_g = ucast (drop_bit 4 (number AND 0xF0) * 16 + 8 :: 32 word),
       m_b = ucast ((number AND 0xF) * 16 + 8 :: 32 word),
       m_processingStart = 0, m_renderStart = 0, m_renderEnd = 0,
       m_copiedFromGPU = 0, m_writeEnd = 0, m_scanoutStart = 0,
       m_frameReceived = 0, m_readEnd = 0, m_copiedToGPU = 0,
       m_duplicateReceives = 0 \<rparr>"

definition Number :: "Frame \<Rightarrow> 32 word" where "Number f = m_number f"
definition R :: "Frame \<Rightarrow> 8 word" where "R f = m_r f"
definition G :: "Frame \<Rightarrow> 8 word" where "G f = m_g f"
definition B :: "Frame \<Rightarrow> 8 word" where "B f = m_b f"

definition RecordDuplicateReceive :: "Frame \<Rightarrow> Frame" where
  "RecordDuplicateReceive f = f\<lparr>m_duplicateReceives := m_duplicateReceives f + 1\<rparr>"

definition DuplicateReceives :: "Frame \<Rightarrow> size_t" where
  "DuplicateReceives f = m_duplicateReceives f"

text \<open>Distance between two 8-bit channel values, as a non-negative integer.\<close>

definition channel_distance :: "8 word \<Rightarrow> 8 word \<Rightarrow> int" where
  "channel_distance x y = \<bar>int (unat x) - int (unat y)\<bar>"

subsection \<open>DurationList (DurationList.cpp)\<close>

text \<open>
  \<open>m_values\<close> is a vector of microsecond counts.  The header declaring \<open>Clock\<close>,
  \<open>TimePoint\<close> and \<open>Microseconds\<close> is not part of the sources at hand, so the number of
  clock ticks per microsecond is a parameter \<open>tpu\<close> of every function that converts a
  difference of time points (1000 for a nanosecond clock).  \<open>duration_cast\<close> divides
  with truncation towards zero, as C++ integer division does.
\<close>

type_synonym DurationList = "Microseconds list"

definition sdiv64 :: "64 word \<Rightarrow> 64 word \<Rightarrow> 64 word" where
  "sdiv64 a b = word_of_int (sint a sdiv sint b)"

definition duration_cast :: "64 word \<Rightarrow> 64 word \<Rightarrow> Microseconds" where
  "duration_cast tpu d = sdiv64 d tpu"

definition DurationList_Append :: "DurationList \<Rightarrow> Microseconds \<Rightarrow> DurationList" where
  "DurationList_Append m_values d = m_values @ [d]"

definition DurationList_Append2 ::
  "64 word \<Rightarrow> DurationList \<Rightarrow> TimePoint \<Rightarrow> TimePoint \<Rightarrow> DurationList" where
  "DurationList_Append2 tpu m_values a b = m_values @ [duration_cast tpu (b - a)]"

definition DurationList_Size :: "DurationList \<Rightarrow> size_t" where
  "DurationList_Size m_values = of_nat (length m_values)"

text \<open>
  \<open>*std::min_element(begin, end)\<close> and \<open>*std::max_element(begin, end)\<close>: the first
  smallest (largest) element under the signed order of the counts.  On an empty
  vector the iterator is \<open>end()\<close> and dereferencing it is undefined: \<open>None\<close>.
\<close>

fun min_element :: "Microseconds list \<Rightarrow> Microseconds option" where
  "min_element [] = None"
| "min_element (x # xs) =
     Some (foldl (\<lambda>smallest v. if v <s smallest then v else smallest) x xs)"

fun max_element :: "Microseconds list \<Rightarrow> Microseconds option" where
  "max_element [] = None"
| "max_element (x # xs) =
     Some (foldl (\<lambda>largest v. if largest <s v then v else largest) x xs)"

definition DurationList_Min :: "DurationList \<Rightarrow> Microseconds option" where
  "DurationList_Min m_values = min_element m_values"

definition DurationList_Max :: "DurationList \<Rightarrow> Microseconds option" where
  "DurationList_Max m_values = max_element m_values"

text \<open>
  \<open>Avg\<close> accumulates the counts in a \<open>uint64_t\<close> and divides by \<open>size()\<close> in unsigned
  arithmetic; the quotient becomes the (signed) count of the result.
\<close>

definition DurationList_Avg :: "DurationList \<Rightarrow> Microseconds" where
  "DurationList_Avg m_values =
     (if DurationList_Size m_values = 0 then 0
      else foldl (\<lambda>total v. total + v) (0 :: 64 word) m_values
             div DurationList_Size m_values)"

text \<open>Stream output of integers in decimal, and \<open>std::setw\<close> with the default fill.\<close>

definition digit_char :: "nat \<Rightarrow> char" where
  "digit_char d = ''0123456789'' ! d"

function show_nat :: "nat \<Rightarrow> string" where
  "show_nat n =
     (if n < 10 then [digit_char n] else show_nat (n div 10) @ [digit_char (n mod 10)])"
  by pat_completeness auto
termination by (relation "measure id") auto

declare show_nat.simps [simp del]

definition show_long :: "64 word \<Rightarrow> string" where
  "show_long w =
     (if sint w < 0 then CHR ''-'' # show_nat (nat (- sint w)) else show_nat (nat (sint w)))"

definition show_size_t :: "64 word \<Rightarrow> string" where
  "show_size_t w = show_nat (unat w)"

definition show_uint32 :: "32 word \<Rightarrow> string" where
  "show_uint32 w = show_nat (unat w)"

definition setw :: "nat \<Rightarrow> string \<Rightarrow> string" where
  "setw n s = replicate (n - length s) CHR '' '' @ s"

definition DurationList_Summary :: "DurationList \<Rightarrow> string option" where
  "DurationList_Summary m_values =
     (case (DurationList_Min m_values, DurationList_Max m_values) of
        (Some mn, Some mx) \<Rightarrow>
          Some (''avg = '' @ setw 6 (show_long (DurationList_Avg m_values)) @ '', '' @
                ''min = '' @ setw 6 (show_long mn) @ '', '' @
                ''max = '' @ setw 6 (show_long mx))
      | _ \<Rightarrow> None)"


subsection \<open>TestFormat and ProgramOptions (TestFormat.h, main.cpp)\<close>

datatype PixelFormat = PIXEL_FORMAT_UNKNOWN | PIXEL_FORMAT_RGBA

record TestFormat =
  width :: size_t
  height :: size_t
  pixelFormat :: PixelFormat
  bytesPerPixel :: size_t
  totalBytes :: size_t
  frameRate :: "32 word"

definition GetBytesPerPixel :: "PixelFormat \<Rightarrow> size_t" where
  "GetBytesPerPixel fmt = (case fmt of PIXEL_FORMAT_RGBA \<Rightarrow> 4 | _ \<Rightarrow> 0)"

definition TestFormat :: "size_t \<Rightarrow> size_t \<Rightarrow> PixelFormat \<Rightarrow> 32 word \<Rightarrow> TestFormat" where
  "TestFormat w h pf rate =
     \<lparr> width = w, height = h, pixelFormat = pf,
       bytesPerPixel = GetBytesPerPixel pf,
       totalBytes = w * h * GetBytesPerPixel pf,
       frameRate = rate \<rparr>"

definition FORMAT_UNKNOWN :: TestFormat where
  "FORMAT_UNKNOWN = TestFormat 0 0 PIXEL_FORMAT_UNKNOWN 0"
definition FORMAT_720_RGBA_60 :: TestFormat where
  "FORMAT_720_RGBA_60 = TestFormat 1280 720 PIXEL_FORMAT_RGBA 60"
definition FORMAT_1080_RGBA_60 :: TestFormat where
  "FORMAT_1080_RGBA_60 = TestFormat 1920 1080 PIXEL_FORMAT_RGBA 60"
definition FORMAT_UHD_RGBA_24 :: TestFormat where
  "FORMAT_UHD_RGBA_24 = TestFormat 3840 2160 PIXEL_FORMAT_RGBA 24"
definition FORMAT_UHD_RGBA_60 :: TestFormat where
  "FORMAT_UHD_RGBA_60 = TestFormat 3840 2160 PIXEL_FORMAT_RGBA 60"
definition FORMAT_4K_RGBA_24 :: TestFormat where
  "FORMAT_4K_RGBA_24 = TestFormat 4096 2160 PIXEL_FORMAT_RGBA 24"
definition FORMAT_4K_RGBA_60 :: TestFormat where
  "FORMAT_4K_RGBA_60 = TestFormat 4096 2160 PIXEL_FORMAT_RGBA 60"

datatype ProducerType = PRODUCER_UNKNOWN | PRODUCER_GL | PRODUCER_AJA | PRODUCER_GSTREAMER

datatype ConsumerType =
  CONSUMER_UNKNOWN | CONSUMER_V4L2 | CONSUMER_AJA | CONSUMER_GSTREAMER | CONSUMER_NONE

record ProgramOptions =
  producerType :: ProducerType
  consumerType :: ConsumerType
  format :: TestFormat
  numFrames :: size_t
  warmupFrames :: size_t
  simulatedProcessing :: size_t
  outputFilename :: string
  producerDevice :: string
  producerChannel :: string
  producerRDMA :: bool
  producerTime :: size_t
  consumerDevice :: string
  consumerChannel :: string
  consumerRDMA :: bool

definition DEFAULT_FORMAT :: TestFormat where "DEFAULT_FORMAT = FORMAT_1080_RGBA_60"
definition DEFAULT_NUM_FRAMES :: size_t where "DEFAULT_NUM_FRAMES = 600"
definition DEFAULT_WARMUP_FRAMES :: size_t where "DEFAULT_WARMUP_FRAMES = 60"
definition DEFAULT_PRODUCER_TIME :: size_t where "DEFAULT_PRODUCER_TIME = 10"
definition DEFAULT_SIMULATED_PROCESSING :: size_t where "DEFAULT_SIMULATED_PROCESSING = 0"
definition DEFAULT_USE_RDMA :: int where "DEFAULT_USE_RDMA = 1"

definition ProgramOptions :: ProgramOptions where
  "ProgramOptions =
     \<lparr> producerType = PRODUCER_UNKNOWN, consumerType = CONSUMER_UNKNOWN,
       format = DEFAULT_FORMAT, numFrames = DEFAULT_NUM_FRAMES,
       warmupFrames = DEFAULT_WARMUP_FRAMES,
       simulatedProcessing = DEFAULT_SIMULATED_PROCESSING,
       outputFilename = [], producerDevice = [], producerChannel = [],
       producerRDMA = (DEFAULT_USE_RDMA \<noteq> 0), producerTime = DEFAULT_PRODUCER_TIME,
       consumerDevice = [], consumerChannel = [],
       consumerRDMA = (DEFAULT_USE_RDMA \<noteq> 0) \<rparr>"


subsection \<open>Latency report (main.cpp, \<open>PrintLatencyResults\<close>)\<close>

text \<open>The accumulators declared before the loop over the received frames.\<close>

record LatencyStats =
  expectedFrame :: "32 word"
  skippedFrames :: size_t
  duplicateReceives :: size_t
  processingTimes :: DurationList
  renderTimes :: DurationList
  fromGpuTimes :: DurationList
  writeTimes :: DurationList
  vsyncTimes :: DurationList
  wireTimes :: DurationList
  readTimes :: DurationList
  toGpuTimes :: DurationList
  producerTimes :: DurationList
  consumerTimes :: DurationList
  totalTimes :: DurationList
  estimatedAppTimes :: DurationList

definition LatencyStats_init :: "32 word \<Rightarrow> LatencyStats" where
  "LatencyStats_init first_number =
     \<lparr> expectedFrame = first_number, skippedFrames = 0, duplicateReceives = 0,
       processingTimes = [], renderTimes = [], fromGpuTimes = [], writeTimes = [],
       vsyncTimes = [], wireTimes = [], readTimes = [], toGpuTimes = [],
       producerTimes = [], consumerTimes = [], totalTimes = [],
       estimatedAppTimes = [] \<rparr>"

text \<open>
  The body of \<open>for (const auto& f : frames)\<close>.  \<open>f->Number() - expectedFrame\<close> is a
  32-bit unsigned difference, widened to \<open>size_t\<close> before it is added.
\<close>

definition accumulate :: "64 word \<Rightarrow> LatencyStats \<Rightarrow> Frame \<Rightarrow> LatencyStats" where
  "accumulate tpu s f =
     (let consumerTime = duration_cast tpu (m_copiedToGPU f - m_frameReceived f);
          producerTime = duration_cast tpu (m_writeEnd f - m_processingStart f)
      in s\<lparr> skippedFrames := skippedFrames s + ucast (Number f - expectedFrame s),
             duplicateReceives := duplicateReceives s + DuplicateReceives f,
             expectedFrame := Number f + 1,
             processingTimes :=
               DurationList_Append2 tpu (processingTimes s) (m_processingStart f) (m_renderStart f),
             renderTimes :=
               DurationList_Append2 tpu (renderTimes s) (m_renderStart f) (m_renderEnd f),
             fromGpuTimes :=
               DurationList_Append2 tpu (fromGpuTimes s) (m_renderEnd f) (m_copiedFromGPU f),
             writeTimes :=
               DurationList_Append2 tpu (writeTimes s) (m_copiedFromGPU f) (m_writeEnd f),
             vsyncTimes :=
               DurationList_Append2 tpu (vsyncTimes s) (m_writeEnd f) (m_scanoutStart f),
             wireTimes :=
               DurationList_Append2 tpu (wireTimes s) (m_scanoutStart f) (m_frameReceived f),
             readTimes :=
               DurationList_Append2 tpu (readTimes s) (m_frameReceived f) (m_readEnd f),
             toGpuTimes :=
               DurationList_Append2 tpu (toGpuTimes s) (m_readEnd f) (m_copiedToGPU f),
             producerTimes :=
               DurationList_Append2 tpu (producerTimes s) (m_processingStart f) (m_writeEnd f),
             consumerTimes :=
               DurationList_Append2 tpu (consumerTimes s) (m_frameReceived f) (m_copiedToGPU f),
             totalTimes :=
               DurationList_Append2 tpu (totalTimes s) (m_processingStart f) (m_copiedToGPU f),
             estimatedAppTimes :=
               DurationList_Append (estimatedAppTimes s) (consumerTime + producerTime) \<rparr>)"

text \<open>
  Console output.  A \<open>Log\<close> carries the colour macro wrapped around its text, a
  \<open>Warning\<close> goes to \<open>std::cerr\<close>.  Text rendered from floating-point values
  (\<open>SummaryInFrameIntervals\<close> and the frame rate implied by the average vsync
  interval) is kept as a structured item holding the integer operands.
\<close>

datatype Colour = NoColor | ProducerColor | ConsumerColor | WarningColor | SuccessColor

datatype text_item =
    Str string
  | SummaryInFrameIntervals DurationList Microseconds
  | ActualFrameRate Microseconds

datatype console = Log Colour "text_item list" | Warning "text_item list"

datatype ending = Returned | DivisionByZero | UndefinedDereference

definition endl :: string where
  "endl = [CHR 0x0A]"

definition rule_line :: string where
  "rule_line = ''=========================================================''"

definition skipped_warning :: "size_t \<Rightarrow> size_t \<Rightarrow> size_t \<Rightarrow> console" where
  "skipped_warning received skipped repeated =
     Warning [Str (''Frames were skipped or repeated!'' @ endl @
                   ''Frames received: '' @ show_size_t received @ endl @
                   ''Frames skipped:  '' @ show_size_t skipped @ endl @
                   ''Frames repeated: '' @ show_size_t repeated @ endl)]"


text \<open>The eight per-stage lines, the rule and the total (lines 536 to 545).\<close>

definition stage_tables :: "LatencyStats \<Rightarrow> console list option" where
  "stage_tables s = do {
     processing \<leftarrow> DurationList_Summary (processingTimes s);
     render \<leftarrow> DurationList_Summary (renderTimes s);
     fromGpu \<leftarrow> DurationList_Summary (fromGpuTimes s);
     write \<leftarrow> DurationList_Summary (writeTimes s);
     vsync \<leftarrow> DurationList_Summary (vsyncTimes s);
     wire \<leftarrow> DurationList_Summary (wireTimes s);
     read \<leftarrow> DurationList_Summary (readTimes s);
     toGpu \<leftarrow> DurationList_Summary (toGpuTimes s);
     total \<leftarrow> DurationList_Summary (totalTimes s);
     Some [Log ProducerColor [Str (''CUDA Processing: '' @ processing)],
           Log ProducerColor [Str (''Render on GPU:   '' @ render)],
           Log ProducerColor [Str (''Copy To Host:    '' @ fromGpu)],
           Log ProducerColor [Str (''Write To HW:     '' @ write)],
           Log NoColor [Str (''Vsync Wait:      '' @ vsync)],
           Log NoColor [Str (''Wire Time:       '' @ wire)],
           Log ConsumerColor [Str (''Read From HW:    '' @ read)],
           Log ConsumerColor [Str (''Copy To GPU:     '' @ toGpu)],
           Log NoColor [Str rule_line],
           Log NoColor [Str (''Total:           '' @ total @ endl @ endl)]]
   }"

text \<open>The producer, consumer and estimated-application-time blocks (lines 549 to 564).\<close>

definition totals_block ::
  "Colour \<Rightarrow> string \<Rightarrow> DurationList \<Rightarrow> Microseconds \<Rightarrow> console option" where
  "totals_block colour title durations frameInterval = do {
     summary \<leftarrow> DurationList_Summary durations;
     Some (Log colour
       [Str (title @ endl @ rule_line @ endl @ ''   Microseconds: '' @ summary @ endl @
             ''         Frames: ''),
        SummaryInFrameIntervals durations frameInterval,
        Str endl])
   }"

definition totals_tables :: "LatencyStats \<Rightarrow> Microseconds \<Rightarrow> console list option" where
  "totals_tables s frameInterval = do {
     producer \<leftarrow> totals_block ProducerColor ''Producer (Process and Write to HW)''
                   (producerTimes s) frameInterval;
     consumer \<leftarrow> totals_block ConsumerColor ''Consumer (Read from HW and Copy to GPU)''
                   (consumerTimes s) frameInterval;
     estimated \<leftarrow> totals_block NoColor ''Estimated Application Times (Read + Process + Write)''
                   (estimatedAppTimes s) frameInterval;
     Some [producer, consumer, estimated]
   }"

text \<open>
  The frame counts of the final estimate (lines 569 to 589).  The quotients are signed
  64-bit divisions whose results are stored in \<open>size_t\<close> variables.
\<close>

definition final_frame_counts ::
  "ProducerType \<Rightarrow> LatencyStats \<Rightarrow> Microseconds \<Rightarrow> (size_t \<times> size_t \<times> size_t) option" where
  "final_frame_counts producer s frameInterval = do {
     appMin \<leftarrow> DurationList_Min (estimatedAppTimes s);
     appMax \<leftarrow> DurationList_Max (estimatedAppTimes s);
     let avgFrames = sdiv64 (DurationList_Avg (estimatedAppTimes s) + frameInterval) frameInterval;
     let minFrames = sdiv64 (appMin + frameInterval) frameInterval;
     let maxFrames = sdiv64 (appMax + frameInterval) frameInterval;
     if producer = PRODUCER_GSTREAMER then do {
       wireMin \<leftarrow> DurationList_Min (wireTimes s);
       wireMax \<leftarrow> DurationList_Max (wireTimes s);
       Some (avgFrames + sdiv64 (DurationList_Avg (wireTimes s) + frameInterval) frameInterval,
             minFrames + sdiv64 (wireMin + frameInterval) frameInterval,
             maxFrames + sdiv64 (wireMax + frameInterval) frameInterval)
     } else Some (avgFrames + 1, minFrames + 1, maxFrames + 1)
   }"

text \<open>
  The text of the final estimate (lines 591 to 601).  \<open>avgFrames * frameInterval.count()\<close>
  multiplies a \<open>size_t\<close> by a \<open>long\<close>: the product is an unsigned 64-bit value.
\<close>

definition final_message :: "size_t \<Rightarrow> size_t \<Rightarrow> size_t \<Rightarrow> Microseconds \<Rightarrow> string" where
  "final_message avgFrames minFrames maxFrames frameInterval =
     ''Final Estimated Latencies (Processing + Vsync + Wire)'' @ endl @
     rule_line @ endl @
     ''   Microseconds: '' @
     ''avg = '' @ setw 6 (show_size_t (avgFrames * frameInterval)) @ '', '' @
     ''min = '' @ setw 6 (show_size_t (minFrames * frameInterval)) @ '', '' @
     ''max = '' @ setw 6 (show_size_t (maxFrames * frameInterval)) @ endl @
     ''         Frames: '' @
     ''avg = '' @ setw 6 (show_size_t avgFrames) @ '', '' @
     ''min = '' @ setw 6 (show_size_t minFrames) @ '', '' @
     ''max = '' @ setw 6 (show_size_t maxFrames) @ endl"

definition first_instance_warning :: console where
  "first_instance_warning =
     Warning [Str (''Frames were skipped or repeated. These times only'' @ endl @
                   ''include frames that were actually received, and the times'' @ endl @
                   ''include only the first instance each frame was received.'' @ endl)]"

definition vsync_warning :: "Microseconds \<Rightarrow> Microseconds \<Rightarrow> console" where
  "vsync_warning vsyncAvg frameInterval =
     Warning [Str (''The average vsync interval ('' @ show_long vsyncAvg @ '') exceeded the'' @ endl @
                   ''the expected vsync interval ('' @ show_long frameInterval @
                   '') by a large amount.'' @ endl @
                   ''This could be due to the producer locking to a lower'' @ endl @
                   ''framerate that can't be controlled by the producer API.'' @ endl @
                   ''Please check the actual vsync interval that was used and'' @ endl @
                   ''consider running the test using another format that uses'' @ endl @
                   ''the actual frame interval that was used (''),
              ActualFrameRate vsyncAvg,
              Str '').'']"


text \<open>
  \<open>PrintLatencyResults\<close>.  The result is what was written to the console and how the
  function ended: \<open>1000000 / opts.format.frameRate\<close> and the divisions by
  \<open>frameInterval.count()\<close> are integer divisions, which trap on a zero divisor.  The
  comparison \<open>vsyncTimes.Avg() > frameInterval * 1.5f\<close> is made in floating point and
  is the parameter \<open>vsync_exceeds\<close>.
\<close>

definition PrintLatencyResults ::
  "64 word \<Rightarrow> (Microseconds \<Rightarrow> Microseconds \<Rightarrow> bool) \<Rightarrow> ProgramOptions \<Rightarrow> Frame list
     \<Rightarrow> console list \<times> ending" where
  "PrintLatencyResults tpu vsync_exceeds opts frames =
     (case frames of
        [] \<Rightarrow> ([], Returned)
      | f0 # _ \<Rightarrow>
        (let s = foldl (accumulate tpu) (LatencyStats_init (Number f0)) frames;
             warned = (skippedFrames s \<noteq> 0 \<or> duplicateReceives s \<noteq> 0);
             out1 = (if warned
                     then [skipped_warning (of_nat (length frames)) (skippedFrames s)
                             (duplicateReceives s)]
                     else [])
         in (case stage_tables s of
               None \<Rightarrow> (out1, UndefinedDereference)
             | Some tables \<Rightarrow>
               (if frameRate (format opts) = 0 then (out1 @ tables, DivisionByZero)
                else
                  (let frameInterval = (ucast (1000000 div frameRate (format opts)) :: 64 word)
                   in (case totals_tables s frameInterval of
                         None \<Rightarrow> (out1 @ tables, UndefinedDereference)
                       | Some totals \<Rightarrow>
                         (if frameInterval = 0 then (out1 @ tables @ totals, DivisionByZero)
                          else
                            (case final_frame_counts (producerType opts) s frameInterval of
                               None \<Rightarrow> (out1 @ tables @ totals, UndefinedDereference)
                             | Some (avgFrames, minFrames, maxFrames) \<Rightarrow>
                               (let ss = final_message avgFrames minFrames maxFrames
                                           frameInterval;
                                    final = (if warned
                                             then [Log WarningColor [Str ss],
                                                   first_instance_warning]
                                             else [Log SuccessColor [Str ss]]);
                                    vsync = (if vsync_exceeds (DurationList_Avg (vsyncTimes s))
                                                  frameInterval
                                             then [vsync_warning
                                                     (DurationList_Avg (vsyncTimes s))
                                                     frameInterval]
                                             else [])
                                in (out1 @ tables @ totals @ final @ vsync, Returned))))))))))"

subsection \<open>CSV export (main.cpp, \<open>WriteLatencyResults\<close>)\<close>

definition csv_header :: string where
  "csv_header = ''Frame,Count,Frame Start Timestamp,Frame Interval,Process,Render,Copy To SYS,'' @
                ''Write to HW,VSync,Wire,Read from HW,Copy to GPU''"

text \<open>One row of the loop body; \<open>time_since_epoch()\<close> of a time point is its tick count.\<close>

definition csv_row :: "64 word \<Rightarrow> 32 word \<Rightarrow> TimePoint \<Rightarrow> Frame \<Rightarrow> string" where
  "csv_row tpu firstFrame previousStartTime f =
     show_uint32 (Number f - firstFrame) @ '','' @
     show_size_t (DuplicateReceives f + 1) @ '','' @
     show_long (duration_cast tpu (m_processingStart f)) @ '','' @
     show_long (duration_cast tpu (m_processingStart f - previousStartTime)) @ '','' @
     show_long (duration_cast tpu (m_renderStart f - m_processingStart f)) @ '','' @
     show_long (duration_cast tpu (m_renderEnd f - m_renderStart f)) @ '','' @
     show_long (duration_cast tpu (m_copiedFromGPU f - m_renderEnd f)) @ '','' @
     show_long (duration_cast tpu (m_writeEnd f - m_copiedFromGPU f)) @ '','' @
     show_long (duration_cast tpu (m_scanoutStart f - m_writeEnd f)) @ '','' @
     show_long (duration_cast tpu (m_frameReceived f - m_scanoutStart f)) @ '','' @
     show_long (duration_cast tpu (m_readEnd f - m_frameReceived f)) @ '','' @
     show_long (duration_cast tpu (m_copiedToGPU f - m_readEnd f))"

fun csv_rows :: "64 word \<Rightarrow> 32 word \<Rightarrow> TimePoint \<Rightarrow> Frame list \<Rightarrow> string list" where
  "csv_rows tpu firstFrame previousStartTime [] = []"
| "csv_rows tpu firstFrame previousStartTime (f # fs) =
     csv_row tpu firstFrame previousStartTime f #
     csv_rows tpu firstFrame (m_processingStart f) fs"

text \<open>The lines written to the file; none when the function returns at once.\<close>

definition WriteLatencyResults :: "64 word \<Rightarrow> bool \<Rightarrow> Frame list \<Rightarrow> string list" where
  "WriteLatencyResults tpu is_open frames =
     (if \<not> is_open \<or> length frames = 0 then []
      else case frames of
             [] \<Rightarrow> []
           | f0 # _ \<Rightarrow>
             csv_header # csv_rows tpu (Number f0) (m_processingStart f0) frames)"


subsection \<open>Command line (main.cpp, \<open>ParseArguments\<close>)\<close>

text \<open>
  \<open>exit\<close> ends the process inside the parser, so the parser either exits with a status
  and a message or returns the options.  The arguments are \<open>argv[1]\<close> to
  \<open>argv[argc - 1]\<close>.  The build option \<open>ENABLE_AJA\<close> and the C library's \<open>strtol\<close>
  (base 10) are parameters.
\<close>

datatype message = UsageText | ErrorText string

datatype parse_result = Exited int message | Parsed ProgramOptions

fun ParseArguments ::
  "bool \<Rightarrow> (string \<Rightarrow> 64 word) \<Rightarrow> string list \<Rightarrow> ProgramOptions \<Rightarrow> parse_result" where
  "ParseArguments ENABLE_AJA strtol [] opts = Parsed opts"
| "ParseArguments ENABLE_AJA strtol (a # rest) opts =
     (if a = ''-h'' \<or> a = ''--help'' then Exited 0 UsageText
      else if a = ''-p'' \<or> a = ''--producer'' then
        (case rest of
           [] \<Rightarrow> Exited 1 (ErrorText ''Missing value for -p (producer) option.'')
         | v # rest' \<Rightarrow>
           if v = ''gl'' \<or> v = ''opengl'' then
             ParseArguments ENABLE_AJA strtol rest' (opts\<lparr>producerType := PRODUCER_GL\<rparr>)
           else if v = ''aja'' then
             (if ENABLE_AJA then
                ParseArguments ENABLE_AJA strtol rest' (opts\<lparr>producerType := PRODUCER_AJA\<rparr>)
              else Exited 1 (ErrorText
                ''AJA producer not supported (requires NTV2_SDK build option).''))
           else if v = ''gst'' \<or> v = ''gstreamer'' then
             ParseArguments ENABLE_AJA strtol rest' (opts\<lparr>producerType := PRODUCER_GSTREAMER\<rparr>)
           else Exited 1 (ErrorText (''Invalid value for -p (producer) option: '' @ v)))
      else if a = ''-c'' \<or> a = ''--consumer'' then
        (case rest of
           [] \<Rightarrow> Exited 1 (ErrorText ''Missing value for -c (consumer) option.'')
         | v # rest' \<Rightarrow>
           if v = ''v4l2'' then
             ParseArguments ENABLE_AJA strtol rest' (opts\<lparr>consumerType := CONSUMER_V4L2\<rparr>)
           else if v = ''aja'' then
             (if ENABLE_AJA then
                ParseArguments ENABLE_AJA strtol rest' (opts\<lparr>consumerType := CONSUMER_AJA\<rparr>)
              else Exited 1 (ErrorText
                ''AJA consumer not supported (requires NTV2_SDK build option).''))
           else if v = ''gst'' \<or> v = ''gstreamer'' then
             ParseArguments ENABLE_AJA strtol rest' (opts\<lparr>consumerType := CONSUMER_GSTREAMER\<rparr>)
           else if v = ''none'' then
             ParseArguments ENABLE_AJA strtol rest' (opts\<lparr>consumerType := CONSUMER_NONE\<rparr>)
           else Exited 1 (ErrorText (''Invalid value for -c (consumer) option: '' @ v)))
      else if a = ''-f'' \<or> a = ''--format'' then
        (case rest of
           [] \<Rightarrow> Exited 1 (ErrorText ''Missing value for -f (format) option.'')
         | v # rest' \<Rightarrow>
           if v = ''720'' then
             ParseArguments ENABLE_AJA strtol rest' (opts\<lparr>format := FORMAT_720_RGBA_60\<rparr>)
           else if v = ''1080'' then
             ParseArguments ENABLE_AJA strtol rest' (opts\<lparr>format := FORMAT_1080_RGBA_60\<rparr>)
           else if v = ''uhd-24'' then
             ParseArguments ENABLE_AJA strtol rest' (opts\<lparr>format := FORMAT_UHD_RGBA_24\<rparr>)
           else if v = ''uhd'' then
             ParseArguments ENABLE_AJA strtol rest' (opts\<lparr>format := FORMAT_UHD_RGBA_60\<rparr>)
           else if v = ''4k-24'' then
             ParseArguments ENABLE_AJA strtol rest' (opts\<lparr>format := FORMAT_4K_RGBA_24\<rparr>)
           else if v = ''4k'' then
             ParseArguments ENABLE_AJA strtol rest' (opts\<lparr>format := FORMAT_4K_RGBA_60\<rparr>)
           else Exited 1 (ErrorText (''Invalid value for -f (format) option: '' @ v)))
      else if a = ''-n'' then
        (case rest of
           [] \<Rightarrow> Exited 1 (ErrorText ''Missing value for -n (num frames) option.'')
         | v # rest' \<Rightarrow>
           ParseArguments ENABLE_AJA strtol rest' (opts\<lparr>numFrames := strtol v\<rparr>))
      else if a = ''-w'' then
        (case rest of
           [] \<Rightarrow> Exited 1 (ErrorText ''Missing value for -w (warmup frames) option.'')
         | v # rest' \<Rightarrow>
           ParseArguments ENABLE_AJA strtol rest' (opts\<lparr>warmupFrames := strtol v\<rparr>))
      else if a = ''-s'' then
        (case rest of
           [] \<Rightarrow> Exited 1 (ErrorText ''Missing value for -s (simulated CUDA workload) option.'')
         | v # rest' \<Rightarrow>
           ParseArguments ENABLE_AJA strtol rest' (opts\<lparr>simulatedProcessing := strtol v\<rparr>))
      else if a = ''-o'' then
        (case rest of
           [] \<Rightarrow> Exited 1 (ErrorText ''Missing value for -o (output CSV file) option.'')
         | v # rest' \<Rightarrow>
           ParseArguments ENABLE_AJA strtol rest' (opts\<lparr>outputFilename := v\<rparr>))
      else if a = ''-p.device'' then
        (case rest of
           [] \<Rightarrow> Exited 1 (ErrorText ''Missing value for -p.device (producer device) option.'')
         | v # rest' \<Rightarrow>
           ParseArguments ENABLE_AJA strtol rest' (opts\<lparr>producerDevice := v\<rparr>))
      else if a = ''-p.channel'' then
        (case rest of
           [] \<Rightarrow> Exited 1 (ErrorText ''Missing value for -p.channel (producer channel) option.'')
         | v # rest' \<Rightarrow>
           ParseArguments ENABLE_AJA strtol rest' (opts\<lparr>producerChannel := v\<rparr>))
      else if a = ''-p.rdma'' then
        (case rest of
           [] \<Rightarrow> Exited 1 (ErrorText ''Missing value for -p.rdma (producer RDMA) option.'')
         | v # rest' \<Rightarrow>
           ParseArguments ENABLE_AJA strtol rest' (opts\<lparr>producerRDMA := (strtol v \<noteq> 0)\<rparr>))
      else if a = ''-p.time'' then
        (case rest of
           [] \<Rightarrow> Exited 1 (ErrorText ''Missing value for -p.time (producer runtime) option.'')
         | v # rest' \<Rightarrow>
           ParseArguments ENABLE_AJA strtol rest' (opts\<lparr>producerTime := strtol v\<rparr>))
      else if a = ''-c.device'' then
        (case rest of
           [] \<Rightarrow> Exited 1 (ErrorText ''Missing value for -c.device (consumer device) option.'')
         | v # rest' \<Rightarrow>
           ParseArguments ENABLE_AJA strtol rest' (opts\<lparr>consumerDevice := v\<rparr>))
      else if a = ''-c.channel'' then
        (case rest of
           [] \<Rightarrow> Exited 1 (ErrorText ''Missing value for -c.channel (consumer channel) option.'')
         | v # rest' \<Rightarrow>
           ParseArguments ENABLE_AJA strtol rest' (opts\<lparr>consumerChannel := v\<rparr>))
      else if a = ''-c.rdma'' then
        (case rest of
           [] \<Rightarrow> Exited 1 (ErrorText ''Missing value for -c.rdma (consumer RDMA) option.'')
         | v # rest' \<Rightarrow>
           ParseArguments ENABLE_AJA strtol rest' (opts\<lparr>consumerRDMA := (strtol v \<noteq> 0)\<rparr>))
      else ParseArguments ENABLE_AJA strtol rest opts)"


subsection \<open>The orchestrator (main.cpp, \<open>main\<close>)\<close>

text \<open>
  What the devices do is an input of \<open>main\<close>: whether each fallible call succeeds,
  and the frames the consumer holds after a successful \<open>CaptureFrames\<close>.  The result
  lists, in order, the objects constructed, the latency report printed and the CSV
  lines written, and says how the process ended.  Other console lines of \<open>main\<close>
  are left out.
\<close>

record Environment =
  CudaAlloc_ok :: bool
  outputFile_open_ok :: bool
  producer_Initialize :: bool
  producer_StartStreaming :: bool
  consumer_Initialize :: bool
  consumer_StartStreaming :: bool
  consumer_CaptureFrames :: "Frame list option"

datatype event =
    ConstructProducer ProducerType
  | ConstructConsumer ConsumerType
  | Printed "console list"
  | CsvWritten "string list"

datatype process_end = ExitStatus int | Trapped ending

definition RunSimulatedProcessing :: "Environment \<Rightarrow> int" where
  "RunSimulatedProcessing env = (if \<not> CudaAlloc_ok env then 1 else 0)"

text \<open>The two \<open>switch\<close> statements; \<open>None\<close> is the \<open>default\<close> branch.\<close>

definition construct_producer :: "bool \<Rightarrow> ProducerType \<Rightarrow> event list option" where
  "construct_producer ENABLE_AJA p =
     (case p of
        PRODUCER_GL \<Rightarrow> Some [ConstructProducer PRODUCER_GL]
      | PRODUCER_AJA \<Rightarrow> if ENABLE_AJA then Some [ConstructProducer PRODUCER_AJA] else None
      | PRODUCER_GSTREAMER \<Rightarrow> Some [ConstructProducer PRODUCER_GSTREAMER]
      | PRODUCER_UNKNOWN \<Rightarrow> None)"

definition construct_consumer :: "bool \<Rightarrow> ConsumerType \<Rightarrow> event list option" where
  "construct_consumer ENABLE_AJA c =
     (case c of
        CONSUMER_V4L2 \<Rightarrow> Some [ConstructConsumer CONSUMER_V4L2]
      | CONSUMER_AJA \<Rightarrow> if ENABLE_AJA then Some [ConstructConsumer CONSUMER_AJA] else None
      | CONSUMER_GSTREAMER \<Rightarrow> Some [ConstructConsumer CONSUMER_GSTREAMER]
      | CONSUMER_NONE \<Rightarrow> Some []
      | CONSUMER_UNKNOWN \<Rightarrow> None)"

text \<open>The part of \<open>main\<close> after both objects exist (from line 708 on).\<close>

definition run_test ::
  "64 word \<Rightarrow> (Microseconds \<Rightarrow> Microseconds \<Rightarrow> bool) \<Rightarrow> Environment \<Rightarrow> ProgramOptions
     \<Rightarrow> event list \<times> process_end" where
  "run_test tpu vsync_exceeds env opts =
     (if length (outputFilename opts) > 0 \<and> \<not> outputFile_open_ok env then ([], ExitStatus 1)
      else
        (let is_open = (length (outputFilename opts) > 0) in
         if \<not> producer_Initialize env then ([], ExitStatus 1)
         else if \<not> producer_StartStreaming env then ([], ExitStatus 1)
         else if consumerType opts \<noteq> CONSUMER_NONE then
           (if \<not> consumer_Initialize env then ([], ExitStatus 1)
            else if \<not> consumer_StartStreaming env then ([], ExitStatus 1)
            else (case consumer_CaptureFrames env of
                    None \<Rightarrow> ([], ExitStatus 1)
                  | Some frames \<Rightarrow>
                    (case PrintLatencyResults tpu vsync_exceeds opts frames of
                       (out, Returned) \<Rightarrow>
                         ([Printed out, CsvWritten (WriteLatencyResults tpu is_open frames)],
                          ExitStatus 0)
                     | (out, e) \<Rightarrow> ([Printed out], Trapped e))))
         else ([], ExitStatus 0)))"

definition main ::
  "bool \<Rightarrow> (string \<Rightarrow> 64 word) \<Rightarrow> 64 word \<Rightarrow> (Microseconds \<Rightarrow> Microseconds \<Rightarrow> bool)
     \<Rightarrow> Environment \<Rightarrow> string list \<Rightarrow> event list \<times> process_end" where
  "main ENABLE_AJA strtol tpu vsync_exceeds env args =
     (case ParseArguments ENABLE_AJA strtol args ProgramOptions of
        Exited status msg \<Rightarrow> ([], ExitStatus status)
      | Parsed opts \<Rightarrow>
        (if producerType opts = PRODUCER_UNKNOWN \<and> consumerType opts = CONSUMER_UNKNOWN
            \<and> simulatedProcessing opts > 0
         then ([], ExitStatus (RunSimulatedProcessing env))
         else
           (case construct_producer ENABLE_AJA (producerType opts) of
              None \<Rightarrow> ([], ExitStatus 1)
            | Some producer \<Rightarrow>
              (case construct_consumer ENABLE_AJA (consumerType opts) of
                 None \<Rightarrow> (producer, ExitStatus 1)
               | Some consumer \<Rightarrow>
                 (case run_test tpu vsync_exceeds env opts of
                    (events, t) \<Rightarrow> (producer @ consumer @ events, t))))))"

subsection \<open>Producer (Producer.h)\<close>

text \<open>
  Frames are shared between the producer's list and the consumer's list through
  \<open>std::shared_ptr\<close>.  A pointer is an address, and the frame objects live in a store
  that maps each address to the object's current value.
\<close>

type_synonym addr = nat
type_synonym store = "addr \<Rightarrow> Frame"

text \<open>
  Modelled from the spec: \<open>Producer.cpp\<close>, which defines \<open>Producer::FuzzyMatch\<close> and
  \<open>Producer::GetFrame\<close>, is not among the sources; only their declarations in
  \<open>Producer.h\<close> are.  A frame matches when each of its three channels is within
  \<open>threshold\<close> units of the observed channel.
\<close>

definition FuzzyMatch :: "Frame \<Rightarrow> 8 word \<Rightarrow> 8 word \<Rightarrow> 8 word \<Rightarrow> 8 word \<Rightarrow> bool" where
  "FuzzyMatch frame r g b threshold =
     (channel_distance (R frame) r \<le> int (unat threshold)
      \<and> channel_distance (G frame) g \<le> int (unat threshold)
      \<and> channel_distance (B frame) b \<le> int (unat threshold))"

text \<open>
  Modelled from the spec: the linear search of \<open>Producer::GetFrame\<close> over the retained
  list, from the newest frame to the oldest.  The first argument decides a match, the
  second is the part of the list still to be searched (newest first) and the third holds
  the newer frames already passed (oldest first).  A match is returned with the list that
  remains: the match and everything newer.
\<close>

fun scan_newest_first ::
  "(addr \<Rightarrow> bool) \<Rightarrow> addr list \<Rightarrow> addr list \<Rightarrow> (addr \<times> addr list) option" where
  "scan_newest_first matches [] newer = None"
| "scan_newest_first matches (a # older) newer =
     (if matches a then Some (a, a # newer) else scan_newest_first matches older (a # newer))"

text \<open>
  Modelled from the spec: \<open>Producer::GetFrame(const void* ptr)\<close>, missing with
  \<open>Producer.cpp\<close>.  \<open>m_frames\<close> is the retained list, oldest frame first (new frames
  are appended).  \<open>ptr\<close> gives the bytes of the buffer; the first pixel's red, green
  and blue channels are its bytes 0, 1 and 2.  The result is the frame found, if any,
  and the retained list afterwards.
\<close>

definition GetFrame :: "store \<Rightarrow> addr list \<Rightarrow> (nat \<Rightarrow> 8 word) \<Rightarrow> addr option \<times> addr list" where
  "GetFrame heap m_frames ptr =
     (let r = ptr 0; g = ptr 1; b = ptr 2
      in case scan_newest_first (\<lambda>a. FuzzyMatch (heap a) r g b 8) (rev m_frames) [] of
           None \<Rightarrow> (None, m_frames)
         | Some (frame, kept) \<Rightarrow> (Some frame, kept))"

section \<open>Evaluating the decimal output\<close>

lemma show_nat_numeral:
  "show_nat (numeral k) =
     (if (numeral k :: nat) < 10 then [digit_char (numeral k)]
      else show_nat (numeral k div 10) @ [digit_char (numeral k mod 10)])"
  by (rule show_nat.simps)

lemma show_nat_small: "show_nat 0 = ''0''" "show_nat 1 = ''1''" "show_nat (Suc 0) = ''1''"
  by (simp_all add: show_nat.simps [of 0] show_nat.simps [of 1] show_nat.simps [of "Suc 0"]
      digit_char_def)

lemma replicate_numeral_Cons: "replicate (numeral k) x = x # replicate (pred_numeral k) x"
  by (simp add: numeral_eq_Suc)

lemmas show_eval = replicate_numeral_Cons show_nat_numeral show_nat_small digit_char_def
  show_size_t_def show_long_def show_uint32_def setw_def

lemmas DurationList_eval = DurationList_Summary_def DurationList_Min_def DurationList_Max_def
  DurationList_Avg_def DurationList_Size_def DurationList_Append_def word_sless_alt

section \<open>Frame colours\<close>

lemma nibble_high: "drop_bit 8 (n AND 0xF00) = (drop_bit 8 n AND 0xF :: 32 word)"
  by (simp add: bit_eq_iff bit_simps)

lemma nibble_mid: "drop_bit 4 (n AND 0xF0) = (drop_bit 4 n AND 0xF :: 32 word)"
  by (simp add: bit_eq_iff bit_simps)

lemma unat_and_15: "unat (w AND 0xF :: 32 word) = unat w mod 16"
proof -
  have "w AND 0xF = w mod 16"
    by (simp add: take_bit_eq_mask mask_eq_exp_minus_1
        flip: take_bit_eq_mod [of 4 w, simplified])
  then show ?thesis by (simp add: unat_mod)
qed

lemma unat_channel:
  fixes w :: "32 word"
  assumes "unat w < 16"
  shows "unat (ucast (w * 16 + 8) :: 8 word) = unat w * 16 + 8"
proof -
  have "unat (w * 16 + 8) = unat w * 16 + 8"
    using assms by (simp add: unat_word_ariths)
  then show ?thesis
    using assms by (simp add: unsigned_ucast_eq take_bit_eq_mod)
qed

lemma unat_R: "unat (R (Frame n)) = unat n div 256 mod 16 * 16 + 8"
proof -
  have "unat (drop_bit 8 n AND 0xF :: 32 word) = unat n div 256 mod 16"
    by (simp add: unat_and_15 unat_drop_bit_eq drop_bit_eq_div unat_div)
  then show ?thesis by (simp add: R_def Frame_def nibble_high unat_channel)
qed

lemma unat_G: "unat (G (Frame n)) = unat n div 16 mod 16 * 16 + 8"
proof -
  have "unat (drop_bit 4 n AND 0xF :: 32 word) = unat n div 16 mod 16"
    by (simp add: unat_and_15 unat_drop_bit_eq drop_bit_eq_div unat_div)
  then show ?thesis by (simp add: G_def Frame_def nibble_mid unat_channel)
qed

lemma unat_B: "unat (B (Frame n)) = unat n mod 16 * 16 + 8"
proof -
  have "unat (n AND 0xF :: 32 word) = unat n mod 16"
    by (simp add: unat_and_15)
  then show ?thesis by (simp add: B_def Frame_def unat_channel)
qed

lemma nibble_high_nat: "(n::nat) div 256 mod 16 = n mod 4096 div 256"
proof -
  have "n mod (256 * 16) = 256 * (n div 256 mod 16) + n mod 256"
    by (rule mod_mult2_eq)
  then show ?thesis by simp
qed

lemma nibble_mid_nat: "(n::nat) div 16 mod 16 = n mod 4096 div 16 mod 16"
proof -
  have "n mod (16 * 256) = 16 * (n div 16 mod 256) + n mod 16"
    by (rule mod_mult2_eq)
  then have "n mod 4096 div 16 = n div 16 mod 256" by simp
  moreover have "n div 16 mod 256 mod 16 = n div 16 mod 16"
    by (simp add: mod_mod_cancel)
  ultimately show ?thesis by simp
qed

lemma nibble_low_nat: "(n::nat) mod 16 = n mod 4096 mod 16"
  by (simp add: mod_mod_cancel)

lemma mod_4096_nibbles:
  "(n::nat) mod 4096 = (n div 256 mod 16) * 256 + (n div 16 mod 16) * 16 + n mod 16"
proof -
  have a: "n mod (256 * 16) = 256 * (n div 256 mod 16) + n mod 256"
    by (rule mod_mult2_eq)
  have b: "n mod (16 * 16) = 16 * (n div 16 mod 16) + n mod 16"
    by (rule mod_mult2_eq)
  from a b show ?thesis by simp
qed

lemma colour_eq_iff:
  "(R (Frame m) = R (Frame n) \<and> G (Frame m) = G (Frame n) \<and> B (Frame m) = B (Frame n))
     = (unat m mod 4096 = unat n mod 4096)"
proof -
  have r: "(R (Frame m) = R (Frame n)) = (unat m div 256 mod 16 = unat n div 256 mod 16)"
    by (simp add: word_unat_eq_iff unat_R)
  have g: "(G (Frame m) = G (Frame n)) = (unat m div 16 mod 16 = unat n div 16 mod 16)"
    by (simp add: word_unat_eq_iff unat_G)
  have b: "(B (Frame m) = B (Frame n)) = (unat m mod 16 = unat n mod 16)"
    by (simp add: word_unat_eq_iff unat_B)
  show ?thesis
  proof
    assume "R (Frame m) = R (Frame n) \<and> G (Frame m) = G (Frame n) \<and> B (Frame m) = B (Frame n)"
    then show "unat m mod 4096 = unat n mod 4096"
      unfolding r g b mod_4096_nibbles [of "unat m"] mod_4096_nibbles [of "unat n"]
      by simp
  next
    assume e: "unat m mod 4096 = unat n mod 4096"
    have "unat m div 256 mod 16 = unat n div 256 mod 16"
      using nibble_high_nat [of "unat m"] nibble_high_nat [of "unat n"] e
      by (simp only:)
    moreover have "unat m div 16 mod 16 = unat n div 16 mod 16"
      using nibble_mid_nat [of "unat m"] nibble_mid_nat [of "unat n"] e
      by (simp only:)
    moreover have "unat m mod 16 = unat n mod 16"
      using nibble_low_nat [of "unat m"] nibble_low_nat [of "unat n"] e
      by (simp only:)
    ultimately show "R (Frame m) = R (Frame n) \<and> G (Frame m) = G (Frame n) \<and> B (Frame m) = B (Frame n)"
      unfolding r g b by simp
  qed
qed

lemma channel_gap:
  fixes a b :: nat
  assumes "a \<noteq> b"
  shows "16 \<le> \<bar>int (a * 16 + 8) - int (b * 16 + 8)\<bar>"
  using assms by linarith

text \<open>
  Claim C4.  For every 32-bit frame number \<open>n\<close> the constructed frame has
  \<open>r = ((n >> 8) & 0xF) * 16 + 8\<close>, \<open>g = ((n >> 4) & 0xF) * 16 + 8\<close> and
  \<open>b = (n & 0xF) * 16 + 8\<close>; no channel is 0 and each lies between 8 and 248.
\<close>

theorem C4_frame_colour:
  "R (Frame n) = ucast ((drop_bit 8 n AND 0xF) * 16 + 8 :: 32 word)
   \<and> G (Frame n) = ucast ((drop_bit 4 n AND 0xF) * 16 + 8 :: 32 word)
   \<and> B (Frame n) = ucast ((n AND 0xF) * 16 + 8 :: 32 word)
   \<and> unat (R (Frame n)) = (unat n div 2 ^ 8) mod 16 * 16 + 8
   \<and> unat (G (Frame n)) = (unat n div 2 ^ 4) mod 16 * 16 + 8
   \<and> unat (B (Frame n)) = unat n mod 16 * 16 + 8
   \<and> R (Frame n) \<noteq> 0 \<and> G (Frame n) \<noteq> 0 \<and> B (Frame n) \<noteq> 0
   \<and> 8 \<le> unat (R (Frame n)) \<and> unat (R (Frame n)) \<le> 248
   \<and> 8 \<le> unat (G (Frame n)) \<and> unat (G (Frame n)) \<le> 248
   \<and> 8 \<le> unat (B (Frame n)) \<and> unat (B (Frame n)) \<le> 248"
proof -
  have w: "R (Frame n) = ucast ((drop_bit 8 n AND 0xF) * 16 + 8 :: 32 word)"
    "G (Frame n) = ucast ((drop_bit 4 n AND 0xF) * 16 + 8 :: 32 word)"
    "B (Frame n) = ucast ((n AND 0xF) * 16 + 8 :: 32 word)"
    by (simp_all only: R_def G_def B_def Frame_def Frame.simps nibble_high nibble_mid)
  have u: "unat (R (Frame n)) = (unat n div 2 ^ 8) mod 16 * 16 + 8"
    "unat (G (Frame n)) = (unat n div 2 ^ 4) mod 16 * 16 + 8"
    "unat (B (Frame n)) = unat n mod 16 * 16 + 8"
    by (simp_all add: unat_R unat_G unat_B)
  have nz: "R (Frame n) \<noteq> 0" "G (Frame n) \<noteq> 0" "B (Frame n) \<noteq> 0"
    using u by (auto simp: word_unat_eq_iff)
  have lo: "8 \<le> unat (R (Frame n))" "8 \<le> unat (G (Frame n))" "8 \<le> unat (B (Frame n))"
    using u by simp_all
  have "(unat n div 2 ^ 8) mod 16 \<le> 15" "(unat n div 2 ^ 4) mod 16 \<le> 15" "unat n mod 16 \<le> 15"
    by simp_all
  then have hi: "unat (R (Frame n)) \<le> 248" "unat (G (Frame n)) \<le> 248" "unat (B (Frame n)) \<le> 248"
    unfolding u by linarith+
  from w u nz lo hi show ?thesis by blast
qed

text \<open>
  Claim C10.  Two frames have the same colour triple exactly when their numbers are
  congruent modulo 4096; when the triples differ, some channel differs by at least 16,
  so the two colours are not within 8 units of each other on every channel.
\<close>

theorem C10_colour_separation:
  "((R (Frame m), G (Frame m), B (Frame m)) = (R (Frame n), G (Frame n), B (Frame n)))
     = (unat m mod 4096 = unat n mod 4096)
   \<and> ((R (Frame m), G (Frame m), B (Frame m)) \<noteq> (R (Frame n), G (Frame n), B (Frame n))
       \<longrightarrow> (16 \<le> channel_distance (R (Frame m)) (R (Frame n))
            \<or> 16 \<le> channel_distance (G (Frame m)) (G (Frame n))
            \<or> 16 \<le> channel_distance (B (Frame m)) (B (Frame n)))
         \<and> \<not> (channel_distance (R (Frame m)) (R (Frame n)) \<le> 8
              \<and> channel_distance (G (Frame m)) (G (Frame n)) \<le> 8
              \<and> channel_distance (B (Frame m)) (B (Frame n)) \<le> 8))"
proof -
  have eq: "((R (Frame m), G (Frame m), B (Frame m)) = (R (Frame n), G (Frame n), B (Frame n)))
     = (unat m mod 4096 = unat n mod 4096)"
    using colour_eq_iff [of m n] by simp
  have gap: "16 \<le> channel_distance (R (Frame m)) (R (Frame n))
            \<or> 16 \<le> channel_distance (G (Frame m)) (G (Frame n))
            \<or> 16 \<le> channel_distance (B (Frame m)) (B (Frame n))"
    if ne: "(R (Frame m), G (Frame m), B (Frame m)) \<noteq> (R (Frame n), G (Frame n), B (Frame n))"
  proof -
    from ne consider "R (Frame m) \<noteq> R (Frame n)" | "G (Frame m) \<noteq> G (Frame n)"
      | "B (Frame m) \<noteq> B (Frame n)" by auto
    then show ?thesis
    proof cases
      case 1
      then have "unat m div 256 mod 16 \<noteq> unat n div 256 mod 16"
        by (simp add: word_unat_eq_iff unat_R)
      then have "16 \<le> channel_distance (R (Frame m)) (R (Frame n))"
        unfolding channel_distance_def unat_R by (rule channel_gap)
      then show ?thesis by simp
    next
      case 2
      then have "unat m div 16 mod 16 \<noteq> unat n div 16 mod 16"
        by (simp add: word_unat_eq_iff unat_G)
      then have "16 \<le> channel_distance (G (Frame m)) (G (Frame n))"
        unfolding channel_distance_def unat_G by (rule channel_gap)
      then show ?thesis by simp
    next
      case 3
      then have "unat m mod 16 \<noteq> unat n mod 16"
        by (simp add: word_unat_eq_iff unat_B)
      then have "16 \<le> channel_distance (B (Frame m)) (B (Frame n))"
        unfolding channel_distance_def unat_B by (rule channel_gap)
      then show ?thesis by simp
    qed
  qed
  from eq gap show ?thesis by fastforce
qed

theorem C10_colour_separation_witness:
  "(R (Frame 5), G (Frame 5), B (Frame 5)) \<noteq> (R (Frame 9), G (Frame 9), B (Frame 9))
   \<and> (16 \<le> channel_distance (R (Frame 5)) (R (Frame 9))
      \<or> 16 \<le> channel_distance (G (Frame 5)) (G (Frame 9))
      \<or> 16 \<le> channel_distance (B (Frame 5)) (B (Frame 9)))
   \<and> ((R (Frame 5), G (Frame 5), B (Frame 5)) = (R (Frame 4101), G (Frame 4101), B (Frame 4101)))"
proof -
  have ne: "(R (Frame 5), G (Frame 5), B (Frame 5)) \<noteq> (R (Frame 9), G (Frame 9), B (Frame 9))"
    by (simp add: R_def G_def B_def Frame_def)
  have "(5 :: nat) mod 4096 = 4101 mod 4096" by simp
  then have eq: "(R (Frame 5), G (Frame 5), B (Frame 5))
      = (R (Frame 4101), G (Frame 4101), B (Frame 4101))"
    using C10_colour_separation [of 5 4101] by simp
  from ne eq C10_colour_separation [of 5 9] show ?thesis by blast
qed

section \<open>Duration statistics\<close>

lemma foldl_add_sum_list: "foldl (\<lambda>total v. total + v) (a :: 64 word) xs = a + sum_list xs"
  by (induction xs arbitrary: a) (simp_all add: add.assoc)

lemma sum_list_word_of_int: "(sum_list xs :: 64 word) = word_of_int (\<Sum>x\<leftarrow>xs. sint x)"
  by (induction xs) simp_all

lemma sum_sint_upper: "(\<Sum>x\<leftarrow>xs. sint (x :: 64 word)) \<le> int (length xs) * (2 ^ 63 - 1)"
proof (induction xs)
  case Nil
  then show ?case by simp
next
  case (Cons x xs)
  have "sint x < 2 ^ 63" using sint_lt [of x] by simp
  with Cons show ?case by (simp add: algebra_simps)
qed

lemma sint_eq_uint_64: "uint (w :: 64 word) < 2 ^ 63 \<Longrightarrow> sint w = uint w"
proof -
  assume a: "uint w < 2 ^ 63"
  have "- (2 ^ 63) \<le> uint w" by (rule order_trans [of _ 0]) simp_all
  with a show ?thesis
    using signed_take_bit_int_eq_self [of 63 "uint w"] by (simp add: sint_uint)
qed

lemma DurationList_Avg_mean:
  assumes ne: "l \<noteq> []" and len: "length l < 2 ^ 64"
    and lo: "0 \<le> (\<Sum>x\<leftarrow>l. sint x)" and hi: "(\<Sum>x\<leftarrow>l. sint x) < 2 ^ 64"
  shows "sint (DurationList_Avg l) = (\<Sum>x\<leftarrow>l. sint x) sdiv int (length l)"
proof -
  let ?S = "\<Sum>x\<leftarrow>l. sint x"
  let ?n = "int (length l)"
  have npos: "0 < ?n" using ne by simp
  have un: "uint (of_nat (length l) :: 64 word) = ?n"
    using len by (simp add: uint_word_of_int take_bit_eq_mod unsigned_of_nat)
  then have nz: "(of_nat (length l) :: 64 word) \<noteq> 0"
    using npos by (metis less_irrefl uint_0_eq)
  have ut: "uint (foldl (\<lambda>total v. total + v) (0 :: 64 word) l) = ?S"
    using lo hi by (simp add: foldl_add_sum_list sum_list_word_of_int uint_word_of_int)
  have ua: "uint (DurationList_Avg l) = ?S div ?n"
    using nz by (simp add: DurationList_Avg_def DurationList_Size_def uint_div ut un)
  have "?S \<le> ?n * (2 ^ 63 - 1)" by (rule sum_sint_upper)
  then have "?S div ?n \<le> (?n * (2 ^ 63 - 1)) div ?n"
    using npos by (intro zdiv_mono1) simp_all
  then have "?S div ?n \<le> 2 ^ 63 - 1"
    using npos by simp
  then have "sint (DurationList_Avg l) = ?S div ?n"
    using ua by (simp add: sint_eq_uint_64)
  moreover have "?S sdiv ?n = ?S div ?n"
    using lo npos by (simp add: signed_divide_int_def sgn_if)
  ultimately show ?thesis by simp
qed

lemma min_fold:
  "foldl (\<lambda>smallest v. if v <s smallest then v else smallest) x xs \<in> set (x # xs)
   \<and> (\<forall>y \<in> set (x # xs).
         sint (foldl (\<lambda>smallest v. if v <s smallest then v else smallest) x xs) \<le> sint y)"
proof (induction xs arbitrary: x)
  case Nil
  then show ?case by simp
next
  case (Cons a xs)
  show ?case
    using Cons [of "if a <s x then a else x"]
    by (auto simp: word_sless_alt)
qed

lemma max_fold:
  "foldl (\<lambda>largest v. if largest <s v then v else largest) x xs \<in> set (x # xs)
   \<and> (\<forall>y \<in> set (x # xs).
         sint y \<le> sint (foldl (\<lambda>largest v. if largest <s v then v else largest) x xs))"
proof (induction xs arbitrary: x)
  case Nil
  then show ?case by simp
next
  case (Cons a xs)
  show ?case
    using Cons [of "if x <s a then a else x"]
    by (auto simp: word_sless_alt)
qed

lemma DurationList_Min_least:
  "l \<noteq> [] \<Longrightarrow> \<exists>m. DurationList_Min l = Some m \<and> m \<in> set l \<and> (\<forall>y \<in> set l. sint m \<le> sint y)"
  using min_fold by (cases l) (simp_all add: DurationList_Min_def)

lemma DurationList_Max_greatest:
  "l \<noteq> [] \<Longrightarrow> \<exists>m. DurationList_Max l = Some m \<and> m \<in> set l \<and> (\<forall>y \<in> set l. sint y \<le> sint m)"
  using max_fold by (cases l) (simp_all add: DurationList_Max_def)

lemma setw_right_justified:
  "length (setw n s) = max n (length s) \<and> drop (length (setw n s) - length s) (setw n s) = s
   \<and> take (n - length s) (setw n s) = replicate (n - length s) CHR '' ''"
  by (simp add: setw_def max_def)

lemma DurationList_Summary_some:
  assumes "DurationList_Min l = Some mn" "DurationList_Max l = Some mx"
  shows "DurationList_Summary l =
      Some (''avg = '' @ setw 6 (show_long (DurationList_Avg l)) @ '', '' @
            ''min = '' @ setw 6 (show_long mn) @ '', '' @
            ''max = '' @ setw 6 (show_long mx))"
  using assms by (simp add: DurationList_Summary_def)

lemma DurationList_Avg_single:
  "length l = 1 \<Longrightarrow> sint (DurationList_Avg l) = sum_list (map sint l) sdiv int (length l)"
proof -
  assume "length l = 1"
  then obtain x where l: "l = [x]" by (cases l) auto
  have "sgn k * \<bar>k\<bar> = k" for k :: int by (simp add: abs_if sgn_if)
  then show ?thesis
    unfolding l by (simp add: DurationList_Avg_def DurationList_Size_def signed_divide_int_def)
qed

lemma DurationList_Avg_uint:
  assumes ne: "l \<noteq> []" and len: "length l < 2 ^ 64"
  shows "uint (DurationList_Avg l) = (sum_list (map sint l) mod 2 ^ 64) div int (length l)"
proof -
  have npos: "0 < int (length l)" using ne by simp
  have un: "uint (of_nat (length l) :: 64 word) = int (length l)"
    using len by (simp add: uint_word_of_int take_bit_eq_mod unsigned_of_nat)
  then have nz: "(of_nat (length l) :: 64 word) \<noteq> 0"
    using npos by (metis less_irrefl uint_0_eq)
  have ut: "uint (foldl (\<lambda>total v. total + v) (0 :: 64 word) l) = sum_list (map sint l) mod 2 ^ 64"
    by (simp add: foldl_add_sum_list sum_list_word_of_int uint_word_of_int)
  show ?thesis
    using nz by (simp add: DurationList_Avg_def DurationList_Size_def uint_div ut un)
qed

text \<open>
  The condition on the sum cannot be dropped: with at least two samples, a negative sum
  or a sum of \<open>2^64\<close> or more always gives an average other than the mean.
\<close>

lemma DurationList_Avg_not_mean:
  assumes n2: "2 \<le> length l" and len: "length l < 2 ^ 63"
    and out: "sum_list (map sint l) < 0 \<or> 2 ^ 64 \<le> sum_list (map sint l)"
  shows "sint (DurationList_Avg l) \<noteq> sum_list (map sint l) sdiv int (length l)"
proof -
  let ?S = "sum_list (map sint l)"
  let ?n = "int (length l)"
  let ?T = "?S mod 2 ^ 64"
  have ne: "l \<noteq> []" using n2 by auto
  have n: "2 \<le> ?n" "?n < 2 ^ 63" using n2 len by simp_all
  have T: "0 \<le> ?T" "?T < 2 ^ 64" by simp_all
  have ua: "uint (DurationList_Avg l) = ?T div ?n"
    using ne len by (intro DurationList_Avg_uint) simp_all
  have "?T div ?n \<le> ?T div 2"
    using n T by (intro zdiv_mono2) simp_all
  also have "\<dots> < 2 ^ 63" using T by simp
  finally have small: "?T div ?n < 2 ^ 63" .
  then have sa: "sint (DurationList_Avg l) = ?T div ?n"
    using ua by (simp add: sint_eq_uint_64)
  have npos: "0 < ?n" using n by linarith
  have nonneg: "0 \<le> ?T div ?n"
    using pos_imp_zdiv_nonneg_iff [OF npos, of ?T] T by blast
  from out show ?thesis
  proof
    assume neg: "?S < 0"
    have sd: "?S sdiv ?n = - ((- ?S) div ?n)"
      using neg n by (simp add: signed_divide_int_def sgn_if)
    show ?thesis
    proof
      assume eq: "sint (DurationList_Avg l) = ?S sdiv ?n"
      have "0 \<le> (- ?S) div ?n"
        using pos_imp_zdiv_nonneg_iff [OF npos, of "- ?S"] neg by simp
      with eq sa sd nonneg have z: "?T div ?n = 0" "(- ?S) div ?n = 0" by linarith+
      from z(2) have b: "- ?S < ?n" using n neg by (auto simp: zdiv_eq_0_iff)
      from z(1) have c: "?T < ?n" using n T by (auto simp: zdiv_eq_0_iff)
      have lo: "- (2 ^ 64) \<le> ?S" using b n by simp
      have "(?S + 2 ^ 64) mod 2 ^ 64 = ?S + 2 ^ 64"
        using lo neg by (intro mod_pos_pos_trivial) simp_all
      then have "?T = ?S + 2 ^ 64" by simp
      with b c n show False by simp
    qed
  next
    assume big: "2 ^ 64 \<le> ?S"
    have sd: "?S sdiv ?n = ?S div ?n"
      using big n by (simp add: signed_divide_int_def sgn_if)
    have "(?S - 2 ^ 64) mod 2 ^ 64 \<le> ?S - 2 ^ 64"
      using big by (intro zmod_le_nonneg_dividend) simp
    moreover have "(?S - 2 ^ 64) mod 2 ^ 64 = ?T" by simp
    ultimately have "?T \<le> ?S - 2 ^ 64" by simp
    then have "?T div ?n \<le> (?S - 2 ^ 64) div ?n"
      using npos by (intro zdiv_mono1)
    also have "\<dots> \<le> (?S - ?n) div ?n"
      using npos n by (intro zdiv_mono1) simp_all
    also have "\<dots> = ?S div ?n - 1"
      using div_add_self2 [of ?n "?S - ?n"] npos by simp
    finally show ?thesis using sa sd by linarith
  qed
qed

text \<open>
  Claim C6, as amended.  \<open>Avg\<close> of the empty list is 0.  \<open>Avg\<close> of a non-empty list is
  the truncating integer mean of its samples when the list has a single sample or the
  samples have a non-negative sum below \<open>2^64\<close> (any list of non-negative elapsed times
  that does not overflow the unsigned accumulator).  \<open>Min\<close> and \<open>Max\<close> of every
  non-empty list are its least and greatest samples, and \<open>Summary\<close> of every non-empty
  list pads each value on the left to at least 6 characters; after appending 10, 20 and
  30 the summary is the string of the claim.
\<close>

theorem C6_duration_list:
  "DurationList_Avg [] = 0
    \<and> (l \<noteq> [] \<and> length l < 2 ^ 64
         \<and> (length l = 1 \<or> (0 \<le> sum_list (map sint l) \<and> sum_list (map sint l) < 2 ^ 64))
        \<longrightarrow> sint (DurationList_Avg l) = sum_list (map sint l) sdiv int (length l))
    \<and> (l \<noteq> [] \<longrightarrow>
         (\<exists>mn mx.
            DurationList_Min l = Some mn \<and> mn \<in> set l \<and> (\<forall>y \<in> set l. sint mn \<le> sint y)
            \<and> DurationList_Max l = Some mx \<and> mx \<in> set l \<and> (\<forall>y \<in> set l. sint y \<le> sint mx)
            \<and> DurationList_Summary l =
                Some (''avg = '' @ setw 6 (show_long (DurationList_Avg l)) @ '', '' @
                      ''min = '' @ setw 6 (show_long mn) @ '', '' @
                      ''max = '' @ setw 6 (show_long mx))))
    \<and> (\<forall>s. length (setw 6 s) = max 6 (length s)
            \<and> drop (length (setw 6 s) - length s) (setw 6 s) = s
            \<and> take (6 - length s) (setw 6 s) = replicate (6 - length s) CHR '' '')
    \<and> DurationList_Summary
          (DurationList_Append (DurationList_Append (DurationList_Append [] 10) 20) 30)
        = Some ''avg =     20, min =     10, max =     30''"
proof -
  have a0: "DurationList_Avg [] = 0"
    by (simp add: DurationList_Avg_def DurationList_Size_def)
  have a1: "sint (DurationList_Avg l) = sum_list (map sint l) sdiv int (length l)"
    if "l \<noteq> [] \<and> length l < 2 ^ 64
         \<and> (length l = 1 \<or> (0 \<le> sum_list (map sint l) \<and> sum_list (map sint l) < 2 ^ 64))"
  proof (cases "length l = 1")
    case True
    then show ?thesis by (rule DurationList_Avg_single)
  next
    case False
    with that show ?thesis by (intro DurationList_Avg_mean) simp_all
  qed
  have m: "\<exists>mn mx.
            DurationList_Min l = Some mn \<and> mn \<in> set l \<and> (\<forall>y \<in> set l. sint mn \<le> sint y)
            \<and> DurationList_Max l = Some mx \<and> mx \<in> set l \<and> (\<forall>y \<in> set l. sint y \<le> sint mx)
            \<and> DurationList_Summary l =
                Some (''avg = '' @ setw 6 (show_long (DurationList_Avg l)) @ '', '' @
                      ''min = '' @ setw 6 (show_long mn) @ '', '' @
                      ''max = '' @ setw 6 (show_long mx))"
    if ne: "l \<noteq> []"
  proof -
    obtain mn where mn: "DurationList_Min l = Some mn" "mn \<in> set l"
        "\<forall>y \<in> set l. sint mn \<le> sint y"
      using DurationList_Min_least [OF ne] by blast
    obtain mx where mx: "DurationList_Max l = Some mx" "mx \<in> set l"
        "\<forall>y \<in> set l. sint y \<le> sint mx"
      using DurationList_Max_greatest [OF ne] by blast
    have "DurationList_Summary l =
              Some (''avg = '' @ setw 6 (show_long (DurationList_Avg l)) @ '', '' @
                    ''min = '' @ setw 6 (show_long mn) @ '', '' @
                    ''max = '' @ setw 6 (show_long mx))"
      using mn(1) mx(1) by (rule DurationList_Summary_some)
    with mn mx show ?thesis by blast
  qed
  have w: "\<forall>s. length (setw 6 s) = max 6 (length s)
            \<and> drop (length (setw 6 s) - length s) (setw 6 s) = s
            \<and> take (6 - length s) (setw 6 s) = replicate (6 - length s) CHR '' ''"
    using setw_right_justified [of 6] by blast
  have ex: "DurationList_Summary
          (DurationList_Append (DurationList_Append (DurationList_Append [] 10) 20) 30)
        = Some ''avg =     20, min =     10, max =     30''"
    by (simp add: DurationList_eval show_eval)
  from a0 a1 m w ex show ?thesis by blast
qed

theorem C6_duration_list_witness:
  "sint (DurationList_Avg [10, 20, 30]) = 20
   \<and> sint (DurationList_Avg [- 7]) = - 7
   \<and> (\<exists>mn mx. DurationList_Min [- 5, 3, - 7] = Some mn \<and> sint mn = - 7
         \<and> DurationList_Max [- 5, 3, - 7] = Some mx \<and> sint mx = 3
         \<and> DurationList_Summary [- 5, 3, - 7]
             = Some (''avg = '' @ setw 6 (show_long (DurationList_Avg [- 5, 3, - 7])) @ '', '' @
                     ''min = '' @ setw 6 (show_long mn) @ '', '' @
                     ''max = '' @ setw 6 (show_long mx)))
   \<and> DurationList_Summary [10, 20, 30] = Some ''avg =     20, min =     10, max =     30''"
proof -
  have h1: "[10, 20, 30 :: 64 word] \<noteq> [] \<and> length [10, 20, 30 :: 64 word] < 2 ^ 64
      \<and> (length [10, 20, 30 :: 64 word] = 1
          \<or> (0 \<le> sum_list (map sint [10, 20, 30 :: 64 word])
              \<and> sum_list (map sint [10, 20, 30 :: 64 word]) < 2 ^ 64))"
    by simp
  have "sint (DurationList_Avg [10, 20, 30])
      = sum_list (map sint [10, 20, 30 :: 64 word]) sdiv int (length [10, 20, 30 :: 64 word])"
    using C6_duration_list [of "[10, 20, 30]"] h1 by blast
  then have a: "sint (DurationList_Avg [10, 20, 30]) = 20"
    by (simp add: signed_divide_int_def)
  have h2: "[- 7 :: 64 word] \<noteq> [] \<and> length [- 7 :: 64 word] < 2 ^ 64
      \<and> (length [- 7 :: 64 word] = 1
          \<or> (0 \<le> sum_list (map sint [- 7 :: 64 word])
              \<and> sum_list (map sint [- 7 :: 64 word]) < 2 ^ 64))"
    by simp
  have "sint (DurationList_Avg [- 7])
      = sum_list (map sint [- 7 :: 64 word]) sdiv int (length [- 7 :: 64 word])"
    using C6_duration_list [of "[- 7]"] h2 by blast
  then have b: "sint (DurationList_Avg [- 7]) = - 7"
    by (simp add: signed_divide_int_def)
  have h3: "[- 5, 3, - 7 :: 64 word] \<noteq> []" by simp
  obtain mn mx where
    m: "DurationList_Min [- 5, 3, - 7] = Some mn" "DurationList_Max [- 5, 3, - 7] = Some mx"
       "DurationList_Summary [- 5, 3, - 7]
             = Some (''avg = '' @ setw 6 (show_long (DurationList_Avg [- 5, 3, - 7])) @ '', '' @
                     ''min = '' @ setw 6 (show_long mn) @ '', '' @
                     ''max = '' @ setw 6 (show_long mx))"
    using C6_duration_list [of "[- 5, 3, - 7]"] h3 by blast
  have "DurationList_Min [- 5, 3, - 7] = Some (- 7)" "DurationList_Max [- 5, 3, - 7] = Some 3"
    by (simp_all add: DurationList_eval)
  with m have v: "sint mn = - 7" "sint mx = 3" by simp_all
  have s: "DurationList_Summary [10, 20, 30] = Some ''avg =     20, min =     10, max =     30''"
    using C6_duration_list [of "[10, 20, 30]"]
    by (simp add: DurationList_Append_def)
  from a b m v s show ?thesis by blast
qed

text \<open>
  The claim as stated fails for samples with a negative sum: two samples of \<open>-1\<close>
  microsecond average to 9223372036854775807, not to \<open>-1\<close>.
\<close>

theorem C6_avg_counterexample:
  "sint (DurationList_Avg [- 1, - 1])
     \<noteq> sum_list (map sint [- 1, - 1 :: 64 word]) sdiv int (length [- 1, - 1 :: 64 word])"
proof -
  have "sint (DurationList_Avg [- 1, - 1]) = 9223372036854775807"
    by (simp add: DurationList_eval)
  moreover have "sum_list (map sint [- 1, - 1 :: 64 word]) sdiv int (length [- 1, - 1 :: 64 word]) = - 1"
    by (simp add: signed_divide_int_def)
  ultimately show ?thesis by simp
qed

section \<open>Latency report\<close>

lemma foldl_accumulate_lists:
  "processingTimes (foldl (accumulate tpu) s fs)
     = processingTimes s @ map (\<lambda>f. duration_cast tpu (m_renderStart f - m_processingStart f)) fs
   \<and> renderTimes (foldl (accumulate tpu) s fs)
     = renderTimes s @ map (\<lambda>f. duration_cast tpu (m_renderEnd f - m_renderStart f)) fs
   \<and> fromGpuTimes (foldl (accumulate tpu) s fs)
     = fromGpuTimes s @ map (\<lambda>f. duration_cast tpu (m_copiedFromGPU f - m_renderEnd f)) fs
   \<and> writeTimes (foldl (accumulate tpu) s fs)
     = writeTimes s @ map (\<lambda>f. duration_cast tpu (m_writeEnd f - m_copiedFromGPU f)) fs
   \<and> vsyncTimes (foldl (accumulate tpu) s fs)
     = vsyncTimes s @ map (\<lambda>f. duration_cast tpu (m_scanoutStart f - m_writeEnd f)) fs
   \<and> wireTimes (foldl (accumulate tpu) s fs)
     = wireTimes s @ map (\<lambda>f. duration_cast tpu (m_frameReceived f - m_scanoutStart f)) fs
   \<and> readTimes (foldl (accumulate tpu) s fs)
     = readTimes s @ map (\<lambda>f. duration_cast tpu (m_readEnd f - m_frameReceived f)) fs
   \<and> toGpuTimes (foldl (accumulate tpu) s fs)
     = toGpuTimes s @ map (\<lambda>f. duration_cast tpu (m_copiedToGPU f - m_readEnd f)) fs
   \<and> producerTimes (foldl (accumulate tpu) s fs)
     = producerTimes s @ map (\<lambda>f. duration_cast tpu (m_writeEnd f - m_processingStart f)) fs
   \<and> consumerTimes (foldl (accumulate tpu) s fs)
     = consumerTimes s @ map (\<lambda>f. duration_cast tpu (m_copiedToGPU f - m_frameReceived f)) fs
   \<and> totalTimes (foldl (accumulate tpu) s fs)
     = totalTimes s @ map (\<lambda>f. duration_cast tpu (m_copiedToGPU f - m_processingStart f)) fs
   \<and> estimatedAppTimes (foldl (accumulate tpu) s fs)
     = estimatedAppTimes s @ map (\<lambda>f. duration_cast tpu (m_copiedToGPU f - m_frameReceived f)
                                      + duration_cast tpu (m_writeEnd f - m_processingStart f)) fs"
proof (induction fs arbitrary: s)
  case Nil
  show ?case by simp
next
  case (Cons f fs)
  show ?case
    using Cons.IH [of "accumulate tpu s f"]
    by (simp add: accumulate_def Let_def DurationList_Append2_def DurationList_Append_def)
qed

lemma foldl_accumulate_counts:
  "duplicateReceives (foldl (accumulate tpu) s fs)
     = duplicateReceives s + sum_list (map DuplicateReceives fs)
   \<and> expectedFrame (foldl (accumulate tpu) s fs)
     = (if fs = [] then expectedFrame s else Number (last fs) + 1)
   \<and> skippedFrames (foldl (accumulate tpu) s fs)
     = skippedFrames s
       + (\<Sum>i<length fs. ucast (Number (fs ! i)
            - (if i = 0 then expectedFrame s else Number (fs ! (i - 1)) + 1)))"
proof (induction fs rule: rev_induct)
  case Nil
  show ?case by simp
next
  case (snoc f fs)
  have nth: "\<And>i. i < length fs \<Longrightarrow>
      (ucast (Number ((fs @ [f]) ! i)
            - (if i = 0 then expectedFrame s else Number ((fs @ [f]) ! (i - 1)) + 1)) :: 64 word)
      = ucast (Number (fs ! i)
            - (if i = 0 then expectedFrame s else Number (fs ! (i - 1)) + 1))"
    by (auto simp: nth_append)
  have last: "fs \<noteq> [] \<Longrightarrow> (fs @ [f]) ! (length fs - 1) = last fs"
    by (simp add: nth_append last_conv_nth)
  show ?case
    using snoc.IH nth last
    by (simp add: accumulate_def Let_def add.assoc)
qed

lemma DurationList_Summary_defined:
  "l \<noteq> [] \<Longrightarrow> \<exists>str. DurationList_Summary l = Some str"
  using DurationList_Min_least [of l] DurationList_Max_greatest [of l]
  by (auto simp: DurationList_Summary_def)

lemma stage_tables_defined:
  assumes "processingTimes s \<noteq> []" "renderTimes s \<noteq> []" "fromGpuTimes s \<noteq> []"
    "writeTimes s \<noteq> []" "vsyncTimes s \<noteq> []" "wireTimes s \<noteq> []" "readTimes s \<noteq> []"
    "toGpuTimes s \<noteq> []" "totalTimes s \<noteq> []"
  shows "\<exists>tables. stage_tables s = Some tables"
proof -
  from assms(1) obtain a where a: "DurationList_Summary (processingTimes s) = Some a"
    using DurationList_Summary_defined by blast
  from assms(2) obtain b where b: "DurationList_Summary (renderTimes s) = Some b"
    using DurationList_Summary_defined by blast
  from assms(3) obtain c where c: "DurationList_Summary (fromGpuTimes s) = Some c"
    using DurationList_Summary_defined by blast
  from assms(4) obtain d where d: "DurationList_Summary (writeTimes s) = Some d"
    using DurationList_Summary_defined by blast
  from assms(5) obtain e where e: "DurationList_Summary (vsyncTimes s) = Some e"
    using DurationList_Summary_defined by blast
  from assms(6) obtain f where f: "DurationList_Summary (wireTimes s) = Some f"
    using DurationList_Summary_defined by blast
  from assms(7) obtain g where g: "DurationList_Summary (readTimes s) = Some g"
    using DurationList_Summary_defined by blast
  from assms(8) obtain h where h: "DurationList_Summary (toGpuTimes s) = Some h"
    using DurationList_Summary_defined by blast
  from assms(9) obtain i where i: "DurationList_Summary (totalTimes s) = Some i"
    using DurationList_Summary_defined by blast
  show ?thesis by (simp add: stage_tables_def a b c d e f g h i)
qed

lemma stage_tables_logs:
  "stage_tables s = Some tables \<Longrightarrow> \<forall>x \<in> set tables. \<exists>c t. x = Log c t"
  by (auto simp: stage_tables_def split: Option.bind_splits)

lemma totals_tables_logs:
  "totals_tables s i = Some totals \<Longrightarrow> \<forall>x \<in> set totals. \<exists>c t. x = Log c t"
  by (auto simp: totals_tables_def totals_block_def split: Option.bind_splits)

lemma skipped_warning_distinct:
  "skipped_warning a b c \<noteq> Log colour t"
  "skipped_warning a b c \<noteq> first_instance_warning"
  "skipped_warning a b c \<noteq> vsync_warning x y"
  by (simp_all add: skipped_warning_def first_instance_warning_def vsync_warning_def)

lemma PrintLatencyResults_output:
  assumes st: "stage_tables (foldl (accumulate tpu) (LatencyStats_init (Number f0)) (f0 # fs)) = Some tables"
  shows "\<exists>more. fst (PrintLatencyResults tpu vsync_exceeds opts (f0 # fs))
      = (if skippedFrames (foldl (accumulate tpu) (LatencyStats_init (Number f0)) (f0 # fs)) \<noteq> 0
            \<or> duplicateReceives (foldl (accumulate tpu) (LatencyStats_init (Number f0)) (f0 # fs)) \<noteq> 0
         then [skipped_warning (of_nat (length (f0 # fs)))
                 (skippedFrames (foldl (accumulate tpu) (LatencyStats_init (Number f0)) (f0 # fs)))
                 (duplicateReceives (foldl (accumulate tpu) (LatencyStats_init (Number f0)) (f0 # fs)))]
         else []) @ tables @ more
      \<and> (\<forall>x \<in> set more. (\<exists>c t. x = Log c t) \<or> x = first_instance_warning
                              \<or> (\<exists>a b. x = vsync_warning a b))"
proof -
  define s where "s = foldl (accumulate tpu) (LatencyStats_init (Number f0)) (f0 # fs)"
  define I where "I = (ucast (1000000 div frameRate (format opts)) :: 64 word)"
  have tl: "\<And>totals. totals_tables s I = Some totals \<Longrightarrow> \<forall>x \<in> set totals. \<exists>c t. x = Log c t"
    by (rule totals_tables_logs)
  show ?thesis
    using st tl unfolding PrintLatencyResults_def s_def [symmetric] I_def [symmetric]
    apply (simp only: list.case Let_def s_def [symmetric] I_def [symmetric])
    apply (simp split: option.splits prod.splits)
    apply (intro conjI impI allI)
    apply auto
    done
qed

lemma totals_tables_defined:
  assumes "producerTimes s \<noteq> []" "consumerTimes s \<noteq> []" "estimatedAppTimes s \<noteq> []"
  shows "\<exists>totals. totals_tables s i = Some totals"
proof -
  from assms(1) obtain a where a: "DurationList_Summary (producerTimes s) = Some a"
    using DurationList_Summary_defined by blast
  from assms(2) obtain b where b: "DurationList_Summary (consumerTimes s) = Some b"
    using DurationList_Summary_defined by blast
  from assms(3) obtain c where c: "DurationList_Summary (estimatedAppTimes s) = Some c"
    using DurationList_Summary_defined by blast
  show ?thesis by (simp add: totals_tables_def totals_block_def a b c)
qed

lemma final_frame_counts_value:
  assumes "DurationList_Min (estimatedAppTimes s) = Some appMin"
    "DurationList_Max (estimatedAppTimes s) = Some appMax"
    "DurationList_Min (wireTimes s) = Some wireMin"
    "DurationList_Max (wireTimes s) = Some wireMax"
  shows "final_frame_counts producer s i =
     Some (sdiv64 (DurationList_Avg (estimatedAppTimes s) + i) i
             + (if producer = PRODUCER_GSTREAMER
                then sdiv64 (DurationList_Avg (wireTimes s) + i) i else 1),
           sdiv64 (appMin + i) i
             + (if producer = PRODUCER_GSTREAMER then sdiv64 (wireMin + i) i else 1),
           sdiv64 (appMax + i) i
             + (if producer = PRODUCER_GSTREAMER then sdiv64 (wireMax + i) i else 1))"
  using assms by (simp add: final_frame_counts_def Let_def)

lemma PrintLatencyResults_final:
  assumes st: "stage_tables (foldl (accumulate tpu) (LatencyStats_init (Number f0)) (f0 # fs)) = Some tables"
    and tt: "totals_tables (foldl (accumulate tpu) (LatencyStats_init (Number f0)) (f0 # fs))
               (ucast (1000000 div frameRate (format opts))) = Some totals"
    and fc: "final_frame_counts (producerType opts)
               (foldl (accumulate tpu) (LatencyStats_init (Number f0)) (f0 # fs))
               (ucast (1000000 div frameRate (format opts))) = Some (a, mn, mx)"
    and r: "frameRate (format opts) \<noteq> 0"
    and i: "(ucast (1000000 div frameRate (format opts)) :: 64 word) \<noteq> 0"
  shows "\<exists>before after.
      PrintLatencyResults tpu vsync_exceeds opts (f0 # fs)
        = (before @
           Log (if skippedFrames (foldl (accumulate tpu) (LatencyStats_init (Number f0)) (f0 # fs)) \<noteq> 0
                   \<or> duplicateReceives (foldl (accumulate tpu) (LatencyStats_init (Number f0)) (f0 # fs)) \<noteq> 0
                then WarningColor else SuccessColor)
             [Str (final_message a mn mx (ucast (1000000 div frameRate (format opts))))]
           # after, Returned)"
proof -
  define s where "s = foldl (accumulate tpu) (LatencyStats_init (Number f0)) (f0 # fs)"
  define I where "I = (ucast (1000000 div frameRate (format opts)) :: 64 word)"
  define before where "before =
     (if skippedFrames s \<noteq> 0 \<or> duplicateReceives s \<noteq> 0
      then [skipped_warning (of_nat (length (f0 # fs))) (skippedFrames s) (duplicateReceives s)]
      else []) @ tables @ totals"
  define after where "after =
     (if skippedFrames s \<noteq> 0 \<or> duplicateReceives s \<noteq> 0 then [first_instance_warning] else [])
     @ (if vsync_exceeds (DurationList_Avg (vsyncTimes s)) I
        then [vsync_warning (DurationList_Avg (vsyncTimes s)) I] else [])"
  have "PrintLatencyResults tpu vsync_exceeds opts (f0 # fs)
        = (before @
           Log (if skippedFrames s \<noteq> 0 \<or> duplicateReceives s \<noteq> 0
                then WarningColor else SuccessColor)
             [Str (final_message a mn mx I)]
           # after, Returned)"
    using st tt fc r i
    unfolding PrintLatencyResults_def s_def [symmetric] I_def [symmetric] before_def after_def
    apply (simp only: list.case Let_def s_def [symmetric] I_def [symmetric])
    apply simp
    done
  then show ?thesis unfolding s_def I_def by blast
qed

lemma sint_word_of_int_64:
  "- (2 ^ 63) \<le> k \<Longrightarrow> k < 2 ^ 63 \<Longrightarrow> sint (word_of_int k :: 64 word) = k"
  using signed_take_bit_int_eq_self [of 63 k] by (simp add: sint_sbintrunc')

lemma sint_add_64:
  "- (2 ^ 63) \<le> sint a + sint b \<Longrightarrow> sint a + sint b < 2 ^ 63
     \<Longrightarrow> sint (a + b :: 64 word) = sint a + sint b"
  using signed_take_bit_int_eq_self [of 63 "sint a + sint b"] by (simp add: sint_word_add)

lemma sdiv64_nonneg:
  assumes a: "0 \<le> sint a" and i: "0 < sint i" and b: "sint a + sint i < 2 ^ 63"
  shows "sint (sdiv64 (a + i) i) = (sint a + sint i) div sint i"
    and "uint (sdiv64 (a + i) i) = (sint a + sint i) div sint i"
proof -
  have s: "sint (a + i) = sint a + sint i"
    using a i b by (intro sint_add_64) simp_all
  have q: "(sint a + sint i) sdiv sint i = (sint a + sint i) div sint i"
    using a i by (simp add: signed_divide_int_def sgn_if)
  have lo: "0 \<le> (sint a + sint i) div sint i"
    using a i by (simp add: pos_imp_zdiv_nonneg_iff)
  have "(sint a + sint i) div sint i \<le> sint a + sint i"
    using a i zdiv_mono2 [of "sint a + sint i" 1 "sint i"] by simp
  then have hi: "(sint a + sint i) div sint i < 2 ^ 63" using b by linarith
  show r: "sint (sdiv64 (a + i) i) = (sint a + sint i) div sint i"
    unfolding sdiv64_def s q using lo hi by (intro sint_word_of_int_64) simp_all
  have "uint (sdiv64 (a + i) i) = ((sint a + sint i) div sint i) mod 2 ^ 64"
    unfolding sdiv64_def s q by (simp add: uint_word_of_int)
  also have "\<dots> = (sint a + sint i) div sint i"
    using lo hi by (intro mod_pos_pos_trivial) simp_all
  finally show "uint (sdiv64 (a + i) i) = (sint a + sint i) div sint i" .
qed

lemma frameInterval_value:
  fixes rate :: "32 word"
  shows "uint (ucast (1000000 div rate) :: 64 word) = 1000000 div uint rate"
    and "sint (ucast (1000000 div rate) :: 64 word) = 1000000 div uint rate"
proof -
  have u: "uint (1000000 div rate) = 1000000 div uint rate"
    by (simp add: uint_div)
  show a: "uint (ucast (1000000 div rate) :: 64 word) = 1000000 div uint rate"
    using u by (simp add: uint_up_ucast is_up)
  have "1000000 div uint rate \<le> 1000000"
  proof (cases "uint rate = 0")
    case True
    then show ?thesis by simp
  next
    case False
    then have "0 < uint rate" by (simp add: order_less_le)
    then show ?thesis using zdiv_mono2 [of 1000000 1 "uint rate"] by simp
  qed
  then have "uint (ucast (1000000 div rate) :: 64 word) < 2 ^ 63"
    unfolding a by simp
  then show "sint (ucast (1000000 div rate) :: 64 word) = 1000000 div uint rate"
    using a by (simp add: sint_eq_uint_64)
qed

text \<open>
  Claim C5.  For a non-empty received-frame list the report starts with the warning
  exactly when the skipped-frame count or the duplicate count is non-zero, and the
  per-stage tables follow it.  The skipped-frame count printed is the sum over the list of
  each frame's number minus the expected number (the first frame's own number, then the
  previous number plus one; each difference is a 32-bit unsigned value), the duplicate
  count is the sum of the frames' duplicate-receive counters, and no such warning occurs
  later in the output.
\<close>

theorem C5_skipped_and_duplicates:
  assumes ne: "frames \<noteq> []"
  shows "\<exists>tables more.
      fst (PrintLatencyResults tpu vsync_exceeds opts frames)
        = (if (\<Sum>i<length frames.
                 (ucast (Number (frames ! i)
                    - (if i = 0 then Number (frames ! 0) else Number (frames ! (i - 1)) + 1))
                  :: 64 word)) \<noteq> 0
              \<or> sum_list (map DuplicateReceives frames) \<noteq> 0
           then [skipped_warning (of_nat (length frames))
                   (\<Sum>i<length frames.
                      ucast (Number (frames ! i)
                        - (if i = 0 then Number (frames ! 0) else Number (frames ! (i - 1)) + 1)))
                   (sum_list (map DuplicateReceives frames))]
           else [])
          @ tables @ more
      \<and> stage_tables (foldl (accumulate tpu) (LatencyStats_init (Number (frames ! 0))) frames)
          = Some tables
      \<and> (\<forall>a b c. skipped_warning a b c \<notin> set (tables @ more))"
proof -
  from ne obtain f0 fs where fr: "frames = f0 # fs" by (cases frames) auto
  define s where "s = foldl (accumulate tpu) (LatencyStats_init (Number f0)) (f0 # fs)"
  have lists: "processingTimes s \<noteq> []" "renderTimes s \<noteq> []" "fromGpuTimes s \<noteq> []"
    "writeTimes s \<noteq> []" "vsyncTimes s \<noteq> []" "wireTimes s \<noteq> []" "readTimes s \<noteq> []"
    "toGpuTimes s \<noteq> []" "totalTimes s \<noteq> []"
    unfolding s_def
    using foldl_accumulate_lists [of tpu "LatencyStats_init (Number f0)" "f0 # fs"]
    by simp_all
  then obtain tables where tables: "stage_tables s = Some tables"
    using stage_tables_defined by blast
  have init: "expectedFrame (LatencyStats_init (Number f0)) = Number f0"
    "skippedFrames (LatencyStats_init (Number f0)) = 0"
    "duplicateReceives (LatencyStats_init (Number f0)) = 0"
    by (simp_all add: LatencyStats_init_def)
  have counts: "duplicateReceives s = sum_list (map DuplicateReceives (f0 # fs))"
    "skippedFrames s = (\<Sum>i<length (f0 # fs).
       ucast (Number ((f0 # fs) ! i)
         - (if i = 0 then Number f0 else Number ((f0 # fs) ! (i - 1)) + 1)))"
    unfolding s_def
    using foldl_accumulate_counts [of tpu "LatencyStats_init (Number f0)" "f0 # fs"]
    by (simp_all only: init add_0)
  obtain more where more:
    "fst (PrintLatencyResults tpu vsync_exceeds opts (f0 # fs))
      = (if skippedFrames s \<noteq> 0 \<or> duplicateReceives s \<noteq> 0
         then [skipped_warning (of_nat (length (f0 # fs))) (skippedFrames s) (duplicateReceives s)]
         else []) @ tables @ more"
    "\<forall>x \<in> set more. (\<exists>c t. x = Log c t) \<or> x = first_instance_warning
                              \<or> (\<exists>a b. x = vsync_warning a b)"
    using PrintLatencyResults_output [OF tables [unfolded s_def], of vsync_exceeds opts]
    unfolding s_def [symmetric] by blast
  have no: "\<forall>a b c. skipped_warning a b c \<notin> set (tables @ more)"
    using stage_tables_logs [OF tables] more(2) skipped_warning_distinct
    by (metis Un_iff set_append)
  have n0: "(f0 # fs) ! 0 = f0" by simp
  have out: "fst (PrintLatencyResults tpu vsync_exceeds opts (f0 # fs))
        = (if (\<Sum>i<length (f0 # fs).
                 (ucast (Number ((f0 # fs) ! i)
                    - (if i = 0 then Number f0 else Number ((f0 # fs) ! (i - 1)) + 1))
                  :: 64 word)) \<noteq> 0
              \<or> sum_list (map DuplicateReceives (f0 # fs)) \<noteq> 0
           then [skipped_warning (of_nat (length (f0 # fs)))
                   (\<Sum>i<length (f0 # fs).
                      ucast (Number ((f0 # fs) ! i)
                        - (if i = 0 then Number f0 else Number ((f0 # fs) ! (i - 1)) + 1)))
                   (sum_list (map DuplicateReceives (f0 # fs)))]
           else [])
          @ tables @ more"
    using more(1) by (simp only: counts)
  show ?thesis
    unfolding fr n0
    using out tables [unfolded s_def] no by blast
qed

theorem C5_skipped_and_duplicates_witness:
  "[Frame 0, Frame 1, Frame 3, Frame 4] \<noteq> []
   \<and> (\<exists>rest. fst (PrintLatencyResults 1000 (\<lambda>avg interval. False) ProgramOptions
                    [Frame 0, Frame 1, Frame 3, Frame 4])
              = skipped_warning 4 1 0 # rest)"
proof -
  let ?F = "[Frame 0, Frame 1, Frame 3, Frame 4]"
  have ne: "?F \<noteq> []" by simp
  have gaps: "(\<Sum>i<length ?F.
                 (ucast (Number (?F ! i)
                    - (if i = 0 then Number (?F ! 0) else Number (?F ! (i - 1)) + 1))
                  :: 64 word)) = 1"
    by (simp add: Number_def Frame_def)
  have dups: "sum_list (map DuplicateReceives ?F) = 0"
    by (simp add: DuplicateReceives_def Frame_def)
  have len: "(of_nat (length ?F) :: 64 word) = 4" by simp
  from C5_skipped_and_duplicates [OF ne, of 1000 "\<lambda>avg interval. False" ProgramOptions]
  show ?thesis
    unfolding gaps dups len by auto
qed

text \<open>
  Claim C1.  For a non-empty frame list and a frame rate between 1 and 1000000, with
  \<open>I = 1000000 / frameRate\<close>, the report ends normally and contains the final estimate
  whose frame counts are \<open>(s + I) / I\<close> for \<open>s\<close> the average, minimum and maximum of
  the per-frame estimated application times (consumer total plus producer total), plus 1,
  or plus \<open>(w + I) / I\<close> for \<open>w\<close> the matching wire-time statistic when the producer
  is the GStreamer one; the microsecond values printed are those counts times \<open>I\<close>.
  The quotient is the signed 64-bit division, which for a non-negative statistic is the
  truncating integer quotient.
\<close>

theorem C1_final_estimated_latencies:
  assumes ne: "frames \<noteq> []"
    and r0: "frameRate (format opts) \<noteq> 0"
    and r1: "frameRate (format opts) \<le> 1000000"
  shows
    "let I = (ucast (1000000 div frameRate (format opts)) :: 64 word);
         app = map (\<lambda>f. duration_cast tpu (m_copiedToGPU f - m_frameReceived f)
                        + duration_cast tpu (m_writeEnd f - m_processingStart f)) frames;
         wire = map (\<lambda>f. duration_cast tpu (m_frameReceived f - m_scanoutStart f)) frames
     in \<exists>appMin appMax wireMin wireMax before colour after.
          DurationList_Min app = Some appMin \<and> DurationList_Max app = Some appMax
          \<and> DurationList_Min wire = Some wireMin \<and> DurationList_Max wire = Some wireMax
          \<and> (let avgFrames = sdiv64 (DurationList_Avg app + I) I
                    + (if producerType opts = PRODUCER_GSTREAMER
                       then sdiv64 (DurationList_Avg wire + I) I else 1);
                   minFrames = sdiv64 (appMin + I) I
                    + (if producerType opts = PRODUCER_GSTREAMER
                       then sdiv64 (wireMin + I) I else 1);
                   maxFrames = sdiv64 (appMax + I) I
                    + (if producerType opts = PRODUCER_GSTREAMER
                       then sdiv64 (wireMax + I) I else 1)
               in PrintLatencyResults tpu vsync_exceeds opts frames
                  = (before @
                     Log colour
                       [Str (''Final Estimated Latencies (Processing + Vsync + Wire)'' @ endl @
                             rule_line @ endl @
                             ''   Microseconds: '' @
                             ''avg = '' @ setw 6 (show_size_t (avgFrames * I)) @ '', '' @
                             ''min = '' @ setw 6 (show_size_t (minFrames * I)) @ '', '' @
                             ''max = '' @ setw 6 (show_size_t (maxFrames * I)) @ endl @
                             ''         Frames: '' @
                             ''avg = '' @ setw 6 (show_size_t avgFrames) @ '', '' @
                             ''min = '' @ setw 6 (show_size_t minFrames) @ '', '' @
                             ''max = '' @ setw 6 (show_size_t maxFrames) @ endl)]
                     # after, Returned))
          \<and> uint I = 1000000 div uint (frameRate (format opts)) \<and> 0 < uint I
          \<and> (\<forall>stat. 0 \<le> sint stat \<and> sint stat + uint I < 2 ^ 63
                 \<longrightarrow> uint (sdiv64 (stat + I) I) = (sint stat + uint I) div uint I)"
proof -
  from ne obtain f0 fs where fr: "frames = f0 # fs" by (cases frames) auto
  define s where "s = foldl (accumulate tpu) (LatencyStats_init (Number f0)) (f0 # fs)"
  define I where "I = (ucast (1000000 div frameRate (format opts)) :: 64 word)"
  define app where "app = map (\<lambda>f. duration_cast tpu (m_copiedToGPU f - m_frameReceived f)
                        + duration_cast tpu (m_writeEnd f - m_processingStart f)) (f0 # fs)"
  define wire where "wire = map (\<lambda>f. duration_cast tpu (m_frameReceived f - m_scanoutStart f)) (f0 # fs)"
  have l0: "estimatedAppTimes s = app" "wireTimes s = wire"
    unfolding s_def app_def wire_def
    using foldl_accumulate_lists [of tpu "LatencyStats_init (Number f0)" "f0 # fs"]
    by (simp_all add: LatencyStats_init_def)
  have lists: "processingTimes s \<noteq> []" "renderTimes s \<noteq> []" "fromGpuTimes s \<noteq> []"
    "writeTimes s \<noteq> []" "vsyncTimes s \<noteq> []" "wireTimes s \<noteq> []" "readTimes s \<noteq> []"
    "toGpuTimes s \<noteq> []" "totalTimes s \<noteq> []"
    "producerTimes s \<noteq> []" "consumerTimes s \<noteq> []" "estimatedAppTimes s \<noteq> []"
    unfolding s_def
    using foldl_accumulate_lists [of tpu "LatencyStats_init (Number f0)" "f0 # fs"]
    by simp_all
  obtain tables where tables: "stage_tables s = Some tables"
    using stage_tables_defined lists by blast
  obtain totals where totals: "totals_tables s I = Some totals"
    using totals_tables_defined lists by blast
  have "app \<noteq> []" "wire \<noteq> []" using lists l0 by simp_all
  then obtain appMin appMax wireMin wireMax where
    m: "DurationList_Min app = Some appMin" "DurationList_Max app = Some appMax"
       "DurationList_Min wire = Some wireMin" "DurationList_Max wire = Some wireMax"
    using DurationList_Min_least [of app] DurationList_Max_greatest [of app]
      DurationList_Min_least [of wire] DurationList_Max_greatest [of wire]
    by auto
  define avgFrames where "avgFrames = sdiv64 (DurationList_Avg app + I) I
                    + (if producerType opts = PRODUCER_GSTREAMER
                       then sdiv64 (DurationList_Avg wire + I) I else 1)"
  define minFrames where "minFrames = sdiv64 (appMin + I) I
                    + (if producerType opts = PRODUCER_GSTREAMER
                       then sdiv64 (wireMin + I) I else 1)"
  define maxFrames where "maxFrames = sdiv64 (appMax + I) I
                    + (if producerType opts = PRODUCER_GSTREAMER
                       then sdiv64 (wireMax + I) I else 1)"
  have fc: "final_frame_counts (producerType opts) s I = Some (avgFrames, minFrames, maxFrames)"
    unfolding avgFrames_def minFrames_def maxFrames_def
    using final_frame_counts_value [of s appMin appMax wireMin wireMax "producerType opts" I] m
    by (simp only: l0)
  have uI: "uint I = 1000000 div uint (frameRate (format opts))"
    and sI: "sint I = 1000000 div uint (frameRate (format opts))"
    unfolding I_def by (rule frameInterval_value)+
  have "0 < uint (frameRate (format opts))"
    using r0 uint_ge_0 [of "frameRate (format opts)"] uint_0_iff [of "frameRate (format opts)"]
    by linarith
  moreover have "uint (frameRate (format opts)) \<le> 1000000"
    using r1 by (simp add: word_le_def)
  ultimately have Ipos: "0 < uint I"
    unfolding uI by (simp add: pos_imp_zdiv_pos_iff)
  then have Inz: "I \<noteq> 0" by auto
  obtain before after colour where out:
    "PrintLatencyResults tpu vsync_exceeds opts (f0 # fs)
       = (before @ Log colour [Str (final_message avgFrames minFrames maxFrames I)] # after, Returned)"
    using PrintLatencyResults_final [OF tables [unfolded s_def] totals [unfolded s_def I_def]
        fc [unfolded s_def I_def] r0 Inz [unfolded I_def], of vsync_exceeds]
    unfolding I_def by blast
  have div: "\<forall>stat. 0 \<le> sint stat \<and> sint stat + uint I < 2 ^ 63
                 \<longrightarrow> uint (sdiv64 (stat + I) I) = (sint stat + uint I) div uint I"
    using sdiv64_nonneg(2) [of _ I] Ipos unfolding sI uI by simp
  show ?thesis
    unfolding Let_def fr
    using m out [unfolded final_message_def] uI Ipos div
    unfolding app_def wire_def avgFrames_def minFrames_def maxFrames_def I_def
    by blast
qed

theorem C1_final_estimated_latencies_witness:
  "[Frame 7] \<noteq> [] \<and> frameRate (format ProgramOptions) \<noteq> 0
   \<and> frameRate (format ProgramOptions) \<le> 1000000
   \<and> (\<exists>before colour after.
         PrintLatencyResults 1000 (\<lambda>avg interval. False) ProgramOptions [Frame 7]
           = (before @
              Log colour
                [Str (''Final Estimated Latencies (Processing + Vsync + Wire)'' @ endl @
                      rule_line @ endl @
                      ''   Microseconds: avg =  33332, min =  33332, max =  33332'' @ endl @
                      ''         Frames: avg =      2, min =      2, max =      2'' @ endl)]
              # after, Returned))"
proof -
  have h: "[Frame 7] \<noteq> []" "frameRate (format ProgramOptions) \<noteq> 0"
    "frameRate (format ProgramOptions) \<le> 1000000"
    by (simp_all add: ProgramOptions_def DEFAULT_FORMAT_def FORMAT_1080_RGBA_60_def
        TestFormat_def)
  have I: "(ucast (1000000 div frameRate (format ProgramOptions)) :: 64 word) = 16666"
    by (simp add: ProgramOptions_def DEFAULT_FORMAT_def FORMAT_1080_RGBA_60_def TestFormat_def)
  have p: "producerType ProgramOptions \<noteq> PRODUCER_GSTREAMER"
    by (simp add: ProgramOptions_def)
  have app: "map (\<lambda>f. duration_cast 1000 (m_copiedToGPU f - m_frameReceived f)
                        + duration_cast 1000 (m_writeEnd f - m_processingStart f)) [Frame 7] = [0]"
    by (simp add: Frame_def duration_cast_def sdiv64_def)
  have st: "DurationList_Avg [0] = 0" "DurationList_Min [0] = Some 0" "DurationList_Max [0] = Some 0"
    by (simp_all add: DurationList_Avg_def DurationList_Size_def DurationList_Min_def
        DurationList_Max_def)
  have n: "sdiv64 (0 + 16666) 16666 + 1 = (2 :: 64 word)"
    by (simp add: sdiv64_def signed_divide_int_def)
  have t1: "setw 6 (show_size_t (2 * 16666)) = '' 33332''" by (simp add: show_eval)
  have t2: "setw 6 (show_size_t 2) = ''     2''" by (simp add: show_eval)
  from C1_final_estimated_latencies [OF h, of 1000 "\<lambda>avg interval. False"]
  obtain before colour after where
    "PrintLatencyResults 1000 (\<lambda>avg interval. False) ProgramOptions [Frame 7]
           = (before @
              Log colour
                [Str (''Final Estimated Latencies (Processing + Vsync + Wire)'' @ endl @
                      rule_line @ endl @
                      ''   Microseconds: '' @
                      ''avg = '' @ '' 33332'' @ '', '' @
                      ''min = '' @ '' 33332'' @ '', '' @
                      ''max = '' @ '' 33332'' @ endl @
                      ''         Frames: '' @
                      ''avg = '' @ ''     2'' @ '', '' @
                      ''min = '' @ ''     2'' @ '', '' @
                      ''max = '' @ ''     2'' @ endl)]
              # after, Returned)"
    unfolding Let_def I app st
    by (auto simp only: p if_False option.inject n t1 t2)
  then show ?thesis using h by auto
qed

section \<open>CSV export\<close>

lemma csv_rows_length: "length (csv_rows tpu first prev fs) = length fs"
  by (induction fs arbitrary: prev) simp_all

lemma csv_rows_nth:
  "i < length fs \<Longrightarrow>
     csv_rows tpu first prev fs ! i
       = csv_row tpu first (if i = 0 then prev else m_processingStart (fs ! (i - 1))) (fs ! i)"
proof (induction fs arbitrary: prev i)
  case Nil
  then show ?case by simp
next
  case (Cons f fs)
  show ?case
  proof (cases i)
    case 0
    then show ?thesis by simp
  next
    case (Suc j)
    with Cons.prems have j: "j < length fs" by simp
    show ?thesis
      using Cons.IH [OF j, of "m_processingStart f"] Suc
      by (cases j) simp_all
  qed
qed

lemma duration_cast_0: "duration_cast tpu 0 = 0"
  by (simp add: duration_cast_def sdiv64_def)

lemma WriteLatencyResults_lines:
  assumes "is_open" "frames \<noteq> []"
  shows "WriteLatencyResults tpu is_open frames
    = csv_header # csv_rows tpu (Number (frames ! 0)) (m_processingStart (frames ! 0)) frames"
  using assms by (cases frames) (simp_all add: WriteLatencyResults_def)

lemma WriteLatencyResults_nothing:
  "\<not> is_open \<or> frames = [] \<Longrightarrow> WriteLatencyResults tpu is_open frames = []"
  by (auto simp: WriteLatencyResults_def)

lemma run_test_csv:
  assumes "CsvWritten csv \<in> set (fst (run_test tpu vsync_exceeds env opts))"
  shows "\<exists>frames. consumer_CaptureFrames env = Some frames
           \<and> csv = WriteLatencyResults tpu (outputFilename opts \<noteq> []) frames"
  using assms
  by (auto simp: run_test_def Let_def split: if_splits option.splits prod.splits ending.splits)

text \<open>
  Claim C7.  A run writes CSV lines only if an output path was given and the consumer
  received at least one frame; \<open>WriteLatencyResults\<close> writes nothing when the file is
  not open or the list is empty.  Otherwise the first line is the header and the row of
  the \<open>i\<close>-th frame holds, in order: its number minus the first frame's number, its
  duplicate count plus 1, its processing-start time in microseconds, the interval since
  the previous frame's processing start (0 in the first row), and the eight stage
  durations, which are the \<open>i\<close>-th samples of the eight per-stage lists of the report.
\<close>

theorem C7_csv_export:
  "(\<forall>csv. CsvWritten csv \<in> set (fst (run_test tpu vsync_exceeds env opts)) \<and> csv \<noteq> []
       \<longrightarrow> outputFilename opts \<noteq> []
           \<and> (\<exists>received. consumer_CaptureFrames env = Some received \<and> received \<noteq> []
                 \<and> csv = WriteLatencyResults tpu True received))
   \<and> (\<not> is_open \<or> frames = [] \<longrightarrow> WriteLatencyResults tpu is_open frames = [])
   \<and> (is_open \<and> frames \<noteq> [] \<longrightarrow>
        (let s = foldl (accumulate tpu) (LatencyStats_init (Number (frames ! 0))) frames
         in \<exists>rows.
              WriteLatencyResults tpu is_open frames
                = ''Frame,Count,Frame Start Timestamp,Frame Interval,Process,Render,Copy To SYS,Write to HW,VSync,Wire,Read from HW,Copy to GPU''
                  # rows
              \<and> length rows = length frames
              \<and> (\<forall>i < length frames.
                    rows ! i =
                      show_uint32 (Number (frames ! i) - Number (frames ! 0)) @ '','' @
                      show_size_t (DuplicateReceives (frames ! i) + 1) @ '','' @
                      show_long (duration_cast tpu (m_processingStart (frames ! i))) @ '','' @
                      show_long (if i = 0 then 0
                                 else duration_cast tpu (m_processingStart (frames ! i)
                                        - m_processingStart (frames ! (i - 1)))) @ '','' @
                      show_long (processingTimes s ! i) @ '','' @
                      show_long (renderTimes s ! i) @ '','' @
                      show_long (fromGpuTimes s ! i) @ '','' @
                      show_long (writeTimes s ! i) @ '','' @
                      show_long (vsyncTimes s ! i) @ '','' @
                      show_long (wireTimes s ! i) @ '','' @
                      show_long (readTimes s ! i) @ '','' @
                      show_long (toGpuTimes s ! i))))"
proof (intro conjI allI impI)
  fix csv
  assume a: "CsvWritten csv \<in> set (fst (run_test tpu vsync_exceeds env opts)) \<and> csv \<noteq> []"
  then obtain received where r: "consumer_CaptureFrames env = Some received"
    "csv = WriteLatencyResults tpu (outputFilename opts \<noteq> []) received"
    using run_test_csv by blast
  from a r(2) have "outputFilename opts \<noteq> [] \<and> received \<noteq> []"
    using WriteLatencyResults_nothing [of "outputFilename opts \<noteq> []" received tpu] by auto
  with r show "outputFilename opts \<noteq> []"
    and "\<exists>received. consumer_CaptureFrames env = Some received \<and> received \<noteq> []
                 \<and> csv = WriteLatencyResults tpu True received"
    by auto
next
  assume "\<not> is_open \<or> frames = []"
  then show "WriteLatencyResults tpu is_open frames = []"
    by (rule WriteLatencyResults_nothing)
next
  assume a: "is_open \<and> frames \<noteq> []"
  define s where "s = foldl (accumulate tpu) (LatencyStats_init (Number (frames ! 0))) frames"
  define rows where "rows = csv_rows tpu (Number (frames ! 0)) (m_processingStart (frames ! 0)) frames"
  have w: "WriteLatencyResults tpu is_open frames = csv_header # rows"
    unfolding rows_def using a by (intro WriteLatencyResults_lines) simp_all
  have len: "length rows = length frames"
    unfolding rows_def by (rule csv_rows_length)
  have lists:
    "processingTimes s = map (\<lambda>f. duration_cast tpu (m_renderStart f - m_processingStart f)) frames"
    "renderTimes s = map (\<lambda>f. duration_cast tpu (m_renderEnd f - m_renderStart f)) frames"
    "fromGpuTimes s = map (\<lambda>f. duration_cast tpu (m_copiedFromGPU f - m_renderEnd f)) frames"
    "writeTimes s = map (\<lambda>f. duration_cast tpu (m_writeEnd f - m_copiedFromGPU f)) frames"
    "vsyncTimes s = map (\<lambda>f. duration_cast tpu (m_scanoutStart f - m_writeEnd f)) frames"
    "wireTimes s = map (\<lambda>f. duration_cast tpu (m_frameReceived f - m_scanoutStart f)) frames"
    "readTimes s = map (\<lambda>f. duration_cast tpu (m_readEnd f - m_frameReceived f)) frames"
    "toGpuTimes s = map (\<lambda>f. duration_cast tpu (m_copiedToGPU f - m_readEnd f)) frames"
    unfolding s_def
    using foldl_accumulate_lists [of tpu "LatencyStats_init (Number (frames ! 0))" frames]
    by (simp_all add: LatencyStats_init_def)
  have row: "rows ! i =
                      show_uint32 (Number (frames ! i) - Number (frames ! 0)) @ '','' @
                      show_size_t (DuplicateReceives (frames ! i) + 1) @ '','' @
                      show_long (duration_cast tpu (m_processingStart (frames ! i))) @ '','' @
                      show_long (if i = 0 then 0
                                 else duration_cast tpu (m_processingStart (frames ! i)
                                        - m_processingStart (frames ! (i - 1)))) @ '','' @
                      show_long (processingTimes s ! i) @ '','' @
                      show_long (renderTimes s ! i) @ '','' @
                      show_long (fromGpuTimes s ! i) @ '','' @
                      show_long (writeTimes s ! i) @ '','' @
                      show_long (vsyncTimes s ! i) @ '','' @
                      show_long (wireTimes s ! i) @ '','' @
                      show_long (readTimes s ! i) @ '','' @
                      show_long (toGpuTimes s ! i)" if i: "i < length frames" for i
  proof -
    have "rows ! i = csv_row tpu (Number (frames ! 0))
             (if i = 0 then m_processingStart (frames ! 0) else m_processingStart (frames ! (i - 1)))
             (frames ! i)"
      unfolding rows_def using i by (rule csv_rows_nth)
    then show ?thesis
      using i unfolding lists by (simp add: csv_row_def duration_cast_0)
  qed
  show "let s = foldl (accumulate tpu) (LatencyStats_init (Number (frames ! 0))) frames
         in \<exists>rows.
              WriteLatencyResults tpu is_open frames
                = ''Frame,Count,Frame Start Timestamp,Frame Interval,Process,Render,Copy To SYS,Write to HW,VSync,Wire,Read from HW,Copy to GPU''
                  # rows
              \<and> length rows = length frames
              \<and> (\<forall>i < length frames.
                    rows ! i =
                      show_uint32 (Number (frames ! i) - Number (frames ! 0)) @ '','' @
                      show_size_t (DuplicateReceives (frames ! i) + 1) @ '','' @
                      show_long (duration_cast tpu (m_processingStart (frames ! i))) @ '','' @
                      show_long (if i = 0 then 0
                                 else duration_cast tpu (m_processingStart (frames ! i)
                                        - m_processingStart (frames ! (i - 1)))) @ '','' @
                      show_long (processingTimes s ! i) @ '','' @
                      show_long (renderTimes s ! i) @ '','' @
                      show_long (fromGpuTimes s ! i) @ '','' @
                      show_long (writeTimes s ! i) @ '','' @
                      show_long (vsyncTimes s ! i) @ '','' @
                      show_long (wireTimes s ! i) @ '','' @
                      show_long (readTimes s ! i) @ '','' @
                      show_long (toGpuTimes s ! i))"
    unfolding Let_def s_def [symmetric]
    using w [unfolded csv_header_def] len row by (intro exI [of _ rows]) simp
qed

theorem C7_csv_export_witness:
  "(True \<and> [Frame 5, (Frame 7)\<lparr>m_processingStart := 16666000, m_duplicateReceives := 1\<rparr>] \<noteq> [])
   \<and> (\<exists>rows. WriteLatencyResults 1000 True
                 [Frame 5, (Frame 7)\<lparr>m_processingStart := 16666000, m_duplicateReceives := 1\<rparr>]
        = ''Frame,Count,Frame Start Timestamp,Frame Interval,Process,Render,Copy To SYS,Write to HW,VSync,Wire,Read from HW,Copy to GPU''
          # rows
        \<and> length rows = 2 \<and> rows ! 0 = ''0,1,0,0,0,0,0,0,0,0,0,0'')
   \<and> WriteLatencyResults 1000 True
         [Frame 5, (Frame 7)\<lparr>m_processingStart := 16666000, m_duplicateReceives := 1\<rparr>]
       = [''Frame,Count,Frame Start Timestamp,Frame Interval,Process,Render,Copy To SYS,Write to HW,VSync,Wire,Read from HW,Copy to GPU'',
          ''0,1,0,0,0,0,0,0,0,0,0,0'',
          ''2,2,16666,16666,-16666,0,0,0,0,0,0,0'']"
proof -
  let ?F = "[Frame 5, (Frame 7)\<lparr>m_processingStart := 16666000, m_duplicateReceives := 1\<rparr>]"
  have direct: "WriteLatencyResults 1000 True ?F
       = [''Frame,Count,Frame Start Timestamp,Frame Interval,Process,Render,Copy To SYS,Write to HW,VSync,Wire,Read from HW,Copy to GPU'',
          ''0,1,0,0,0,0,0,0,0,0,0,0'',
          ''2,2,16666,16666,-16666,0,0,0,0,0,0,0'']"
    by (simp add: WriteLatencyResults_def csv_header_def csv_row_def Frame_def Number_def
        DuplicateReceives_def duration_cast_def sdiv64_def signed_divide_int_def show_eval)
  have h: "True \<and> ?F \<noteq> []" by simp
  from C7_csv_export [where tpu = 1000 and is_open = True and frames = "?F"] h
  obtain rows where "WriteLatencyResults 1000 True ?F
        = ''Frame,Count,Frame Start Timestamp,Frame Interval,Process,Render,Copy To SYS,Write to HW,VSync,Wire,Read from HW,Copy to GPU''
          # rows" "length rows = length ?F"
    unfolding Let_def by blast
  with direct h show ?thesis by auto
qed

section \<open>Command line\<close>

lemma ParseArguments_append:
  "ParseArguments aja strtol pre opts = Parsed opts'
     \<Longrightarrow> ParseArguments aja strtol (pre @ suf) opts = ParseArguments aja strtol suf opts'"
proof (induction pre arbitrary: opts rule: length_induct)
  case (1 pre)
  have hyp: "\<And>xs o'. length xs < length pre \<Longrightarrow> ParseArguments aja strtol xs o' = Parsed opts'
      \<Longrightarrow> ParseArguments aja strtol (xs @ suf) o' = ParseArguments aja strtol suf opts'"
    using 1(1) by blast
  show ?case
  proof (cases pre)
    case Nil
    with 1(2) show ?thesis by simp
  next
    case (Cons a rest)
    consider (f0) "a = ''-h''" | (f1) "a = ''--help''" | (f2) "a = ''-p''" | (f3) "a = ''--producer''" | (f4) "a = ''-c''" | (f5) "a = ''--consumer''" | (f6) "a = ''-f''" | (f7) "a = ''--format''" | (f8) "a = ''-n''" | (f9) "a = ''-w''" | (f10) "a = ''-s''" | (f11) "a = ''-o''" | (f12) "a = ''-p.device''" | (f13) "a = ''-p.channel''" | (f14) "a = ''-p.rdma''" | (f15) "a = ''-p.time''" | (f16) "a = ''-c.device''" | (f17) "a = ''-c.channel''" | (f18) "a = ''-c.rdma''"
      | (other) "a \<notin> set [''-h'', ''--help'', ''-p'', ''--producer'', ''-c'', ''--consumer'', ''-f'', ''--format'', ''-n'', ''-w'', ''-s'', ''-o'', ''-p.device'', ''-p.channel'', ''-p.rdma'', ''-p.time'', ''-c.device'', ''-c.channel'', ''-c.rdma'']"
      by auto
    then show ?thesis
    proof cases
      case f0
      with 1 Cons show ?thesis by simp
    next
      case f1
      with 1 Cons show ?thesis by simp
    next
      case f2
      show ?thesis
      proof (cases rest)
        case Nil
        with 1 Cons f2 show ?thesis by simp
      next
        case (Cons v rest')
        with \<open>pre = a # rest\<close> have "length rest' < length pre" by simp
        note IH = hyp [OF this]
        consider (v0) "v = ''gl''" | (v1) "v = ''opengl''" | (v2) "v = ''aja''" | (v3) "v = ''gst''" | (v4) "v = ''gstreamer''"
          | (vother) "v \<notin> set [''gl'', ''opengl'', ''aja'', ''gst'', ''gstreamer'']"
          by auto
        then show ?thesis
        proof cases
          case v0
          show ?thesis
            using 1(2) IH unfolding \<open>pre = a # rest\<close> Cons f2 v0
            by (cases aja) simp_all
        next
          case v1
          show ?thesis
            using 1(2) IH unfolding \<open>pre = a # rest\<close> Cons f2 v1
            by (cases aja) simp_all
        next
          case v2
          show ?thesis
            using 1(2) IH unfolding \<open>pre = a # rest\<close> Cons f2 v2
            by (cases aja) simp_all
        next
          case v3
          show ?thesis
            using 1(2) IH unfolding \<open>pre = a # rest\<close> Cons f2 v3
            by (cases aja) simp_all
        next
          case v4
          show ?thesis
            using 1(2) IH unfolding \<open>pre = a # rest\<close> Cons f2 v4
            by (cases aja) simp_all
        next
          case vother
          show ?thesis
            using 1(2) IH vother unfolding \<open>pre = a # rest\<close> Cons f2
            by simp
        qed
      qed
    next
      case f3
      show ?thesis
      proof (cases rest)
        case Nil
        with 1 Cons f3 show ?thesis by simp
      next
        case (Cons v rest')
        with \<open>pre = a # rest\<close> have "length rest' < length pre" by simp
        note IH = hyp [OF this]
        consider (v0) "v = ''gl''" | (v1) "v = ''opengl''" | (v2) "v = ''aja''" | (v3) "v = ''gst''" | (v4) "v = ''gstreamer''"
          | (vother) "v \<notin> set [''gl'', ''opengl'', ''aja'', ''gst'', ''gstreamer'']"
          by auto
        then show ?thesis
        proof cases
          case v0
          show ?thesis
            using 1(2) IH unfolding \<open>pre = a # rest\<close> Cons f3 v0
            by (cases aja) simp_all
        next
          case v1
          show ?thesis
            using 1(2) IH unfolding \<open>pre = a # rest\<close> Cons f3 v1
            by (cases aja) simp_all
        next
          case v2
          show ?thesis
            using 1(2) IH unfolding \<open>pre = a # rest\<close> Cons f3 v2
            by (cases aja) simp_all
        next
          case v3
          show ?thesis
            using 1(2) IH unfolding \<open>pre = a # rest\<close> Cons f3 v3
            by (cases aja) simp_all
        next
          case v4
          show ?thesis
            using 1(2) IH unfolding \<open>pre = a # rest\<close> Cons f3 v4
            by (cases aja) simp_all
        next
          case vother
          show ?thesis
            using 1(2) IH vother unfolding \<open>pre = a # rest\<close> Cons f3
            by simp
        qed
      qed
    next
      case f4
      show ?thesis
      proof (cases rest)
        case Nil
        with 1 Cons f4 show ?thesis by simp
      next
        case (Cons v rest')
        with \<open>pre = a # rest\<close> have "length rest' < length pre" by simp
        note IH = hyp [OF this]
        consider (v0) "v = ''v4l2''" | (v1) "v = ''aja''" | (v2) "v = ''gst''" | (v3) "v = ''gstreamer''" | (v4) "v = ''none''"
          | (vother) "v \<notin> set [''v4l2'', ''aja'', ''gst'', ''gstreamer'', ''none'']"
          by auto
        then show ?thesis
        proof cases
          case v0
          show ?thesis
            using 1(2) IH unfolding \<open>pre = a # rest\<close> Cons f4 v0
            by (cases aja) simp_all
        next
          case v1
          show ?thesis
            using 1(2) IH unfolding \<open>pre = a # rest\<close> Cons f4 v1
            by (cases aja) simp_all
        next
          case v2
          show ?thesis
            using 1(2) IH unfolding \<open>pre = a # rest\<close> Cons f4 v2
            by (cases aja) simp_all
        next
          case v3
          show ?thesis
            using 1(2) IH unfolding \<open>pre = a # rest\<close> Cons f4 v3
            by (cases aja) simp_all
        next
          case v4
          show ?thesis
            using 1(2) IH unfolding \<open>pre = a # rest\<close> Cons f4 v4
            by (cases aja) simp_all
        next
          case vother
          show ?thesis
            using 1(2) IH vother unfolding \<open>pre = a # rest\<close> Cons f4
            by simp
        qed
      qed
    next
      case f5
      show ?thesis
      proof (cases rest)
        case Nil
        with 1 Cons f5 show ?thesis by simp
      next
        case (Cons v rest')
        with \<open>pre = a # rest\<close> have "length rest' < length pre" by simp
        note IH = hyp [OF this]
        consider (v0) "v = ''v4l2''" | (v1) "v = ''aja''" | (v2) "v = ''gst''" | (v3) "v = ''gstreamer''" | (v4) "v = ''none''"
          | (vother) "v \<notin> set [''v4l2'', ''aja'', ''gst'', ''gstreamer'', ''none'']"
          by auto
        then show ?thesis
        proof cases
          case v0
          show ?thesis
            using 1(2) IH unfolding \<open>pre = a # rest\<close> Cons f5 v0
            by (cases aja) simp_all
        next
          case v1
          show ?thesis
            using 1(2) IH unfolding \<open>pre = a # rest\<close> Cons f5 v1
            by (cases aja) simp_all
        next
          case v2
          show ?thesis
            using 1(2) IH unfolding \<open>pre = a # rest\<close> Cons f5 v2
            by (cases aja) simp_all
        next
          case v3
          show ?thesis
            using 1(2) IH unfolding \<open>pre = a # rest\<close> Cons f5 v3
            by (cases aja) simp_all
        next
          case v4
          show ?thesis
            using 1(2) IH unfolding \<open>pre = a # rest\<close> Cons f5 v4
            by (cases aja) simp_all
        next
          case vother
          show ?thesis
            using 1(2) IH vother unfolding \<open>pre = a # rest\<close> Cons f5
            by simp
        qed
      qed
    next
      case f6
      show ?thesis
      proof (cases rest)
        case Nil
        with 1 Cons f6 show ?thesis by simp
      next
        case (Cons v rest')
        with \<open>pre = a # rest\<close> have "length rest' < length pre" by simp
        note IH = hyp [OF this]
        consider (v0) "v = ''720''" | (v1) "v = ''1080''" | (v2) "v = ''uhd-24''" | (v3) "v = ''uhd''" | (v4) "v = ''4k-24''" | (v5) "v = ''4k''"
          | (vother) "v \<notin> set [''720'', ''1080'', ''uhd-24'', ''uhd'', ''4k-24'', ''4k'']"
          by auto
        then show ?thesis
        proof cases
          case v0
          show ?thesis
            using 1(2) IH unfolding \<open>pre = a # rest\<close> Cons f6 v0
            by (cases aja) simp_all
        next
          case v1
          show ?thesis
            using 1(2) IH unfolding \<open>pre = a # rest\<close> Cons f6 v1
            by (cases aja) simp_all
        next
          case v2
          show ?thesis
            using 1(2) IH unfolding \<open>pre = a # rest\<close> Cons f6 v2
            by (cases aja) simp_all
        next
          case v3
          show ?thesis
            using 1(2) IH unfolding \<open>pre = a # rest\<close> Cons f6 v3
            by (cases aja) simp_all
        next
          case v4
          show ?thesis
            using 1(2) IH unfolding \<open>pre = a # rest\<close> Cons f6 v4
            by (cases aja) simp_all
        next
          case v5
          show ?thesis
            using 1(2) IH unfolding \<open>pre = a # rest\<close> Cons f6 v5
            by (cases aja) simp_all
        next
          case vother
          show ?thesis
            using 1(2) IH vother unfolding \<open>pre = a # rest\<close> Cons f6
            by simp
        qed
      qed
    next
      case f7
      show ?thesis
      proof (cases rest)
        case Nil
        with 1 Cons f7 show ?thesis by simp
      next
        case (Cons v rest')
        with \<open>pre = a # rest\<close> have "length rest' < length pre" by simp
        note IH = hyp [OF this]
        consider (v0) "v = ''720''" | (v1) "v = ''1080''" | (v2) "v = ''uhd-24''" | (v3) "v = ''uhd''" | (v4) "v = ''4k-24''" | (v5) "v = ''4k''"
          | (vother) "v \<notin> set [''720'', ''1080'', ''uhd-24'', ''uhd'', ''4k-24'', ''4k'']"
          by auto
        then show ?thesis
        proof cases
          case v0
          show ?thesis
            using 1(2) IH unfolding \<open>pre = a # rest\<close> Cons f7 v0
            by (cases aja) simp_all
        next
          case v1
          show ?thesis
            using 1(2) IH unfolding \<open>pre = a # rest\<close> Cons f7 v1
            by (cases aja) simp_all
        next
          case v2
          show ?thesis
            using 1(2) IH unfolding \<open>pre = a # rest\<close> Cons f7 v2
            by (cases aja) simp_all
        next
          case v3
          show ?thesis
            using 1(2) IH unfolding \<open>pre = a # rest\<close> Cons f7 v3
            by (cases aja) simp_all
        next
          case v4
          show ?thesis
            using 1(2) IH unfolding \<open>pre = a # rest\<close> Cons f7 v4
            by (cases aja) simp_all
        next
          case v5
          show ?thesis
            using 1(2) IH unfolding \<open>pre = a # rest\<close> Cons f7 v5
            by (cases aja) simp_all
        next
          case vother
          show ?thesis
            using 1(2) IH vother unfolding \<open>pre = a # rest\<close> Cons f7
            by simp
        qed
      qed
    next
      case f8
      show ?thesis
      proof (cases rest)
        case Nil
        with 1 Cons f8 show ?thesis by simp
      next
        case (Cons v rest')
        with \<open>pre = a # rest\<close> have "length rest' < length pre" by simp
        note IH = hyp [OF this]
        show ?thesis
          using 1(2) IH unfolding \<open>pre = a # rest\<close> Cons f8
          by simp
      qed
    next
      case f9
      show ?thesis
      proof (cases rest)
        case Nil
        with 1 Cons f9 show ?thesis by simp
      next
        case (Cons v rest')
        with \<open>pre = a # rest\<close> have "length rest' < length pre" by simp
        note IH = hyp [OF this]
        show ?thesis
          using 1(2) IH unfolding \<open>pre = a # rest\<close> Cons f9
          by simp
      qed
    next
      case f10
      show ?thesis
      proof (cases rest)
        case Nil
        with 1 Cons f10 show ?thesis by simp
      next
        case (Cons v rest')
        with \<open>pre = a # rest\<close> have "length rest' < length pre" by simp
        note IH = hyp [OF this]
        show ?thesis
          using 1(2) IH unfolding \<open>pre = a # rest\<close> Cons f10
          by simp
      qed
    next
      case f11
      show ?thesis
      proof (cases rest)
        case Nil
        with 1 Cons f11 show ?thesis by simp
      next
        case (Cons v rest')
        with \<open>pre = a # rest\<close> have "length rest' < length pre" by simp
        note IH = hyp [OF this]
        show ?thesis
          using 1(2) IH unfolding \<open>pre = a # rest\<close> Cons f11
          by simp
      qed
    next
      case f12
      show ?thesis
      proof (cases rest)
        case Nil
        with 1 Cons f12 show ?thesis by simp
      next
        case (Cons v rest')
        with \<open>pre = a # rest\<close> have "length rest' < length pre" by simp
        note IH = hyp [OF this]
        show ?thesis
          using 1(2) IH unfolding \<open>pre = a # rest\<close> Cons f12
          by simp
      qed
    next
      case f13
      show ?thesis
      proof (cases rest)
        case Nil
        with 1 Cons f13 show ?thesis by simp
      next
        case (Cons v rest')
        with \<open>pre = a # rest\<close> have "length rest' < length pre" by simp
        note IH = hyp [OF this]
        show ?thesis
          using 1(2) IH unfolding \<open>pre = a # rest\<close> Cons f13
          by simp
      qed
    next
      case f14
      show ?thesis
      proof (cases rest)
        case Nil
        with 1 Cons f14 show ?thesis by simp
      next
        case (Cons v rest')
        with \<open>pre = a # rest\<close> have "length rest' < length pre" by simp
        note IH = hyp [OF this]
        show ?thesis
          using 1(2) IH unfolding \<open>pre = a # rest\<close> Cons f14
          by simp
      qed
    next
      case f15
      show ?thesis
      proof (cases rest)
        case Nil
        with 1 Cons f15 show ?thesis by simp
      next
        case (Cons v rest')
        with \<open>pre = a # rest\<close> have "length rest' < length pre" by simp
        note IH = hyp [OF this]
        show ?thesis
          using 1(2) IH unfolding \<open>pre = a # rest\<close> Cons f15
          by simp
      qed
    next
      case f16
      show ?thesis
      proof (cases rest)
        case Nil
        with 1 Cons f16 show ?thesis by simp
      next
        case (Cons v rest')
        with \<open>pre = a # rest\<close> have "length rest' < length pre" by simp
        note IH = hyp [OF this]
        show ?thesis
          using 1(2) IH unfolding \<open>pre = a # rest\<close> Cons f16
          by simp
      qed
    next
      case f17
      show ?thesis
      proof (cases rest)
        case Nil
        with 1 Cons f17 show ?thesis by simp
      next
        case (Cons v rest')
        with \<open>pre = a # rest\<close> have "length rest' < length pre" by simp
        note IH = hyp [OF this]
        show ?thesis
          using 1(2) IH unfolding \<open>pre = a # rest\<close> Cons f17
          by simp
      qed
    next
      case f18
      show ?thesis
      proof (cases rest)
        case Nil
        with 1 Cons f18 show ?thesis by simp
      next
        case (Cons v rest')
        with \<open>pre = a # rest\<close> have "length rest' < length pre" by simp
        note IH = hyp [OF this]
        show ?thesis
          using 1(2) IH unfolding \<open>pre = a # rest\<close> Cons f18
          by simp
      qed
    next
      case other
      from \<open>pre = a # rest\<close> have "length rest < length pre" by simp
      note IH = hyp [OF this]
      show ?thesis
        using 1(2) IH other unfolding \<open>pre = a # rest\<close>
        by simp
    qed
  qed
qed

lemma ParseArguments_last_flag:
  assumes "flag \<in> set [''-p'', ''-c'', ''-f'', ''-n'', ''-w'', ''-s'', ''-o'', ''-p.device'',
                        ''-p.channel'', ''-p.rdma'', ''-p.time'', ''-c.device'', ''-c.channel'',
                        ''-c.rdma'']"
  shows "\<exists>msg. ParseArguments aja strtol [flag] opts
           = Exited 1 (ErrorText (''Missing value for '' @ flag @ msg))"
proof -
  have "\<forall>f \<in> set [''-p'', ''-c'', ''-f'', ''-n'', ''-w'', ''-s'', ''-o'', ''-p.device'',
                        ''-p.channel'', ''-p.rdma'', ''-p.time'', ''-c.device'', ''-c.channel'',
                        ''-c.rdma''].
          \<exists>msg. ParseArguments aja strtol [f] opts
                 = Exited 1 (ErrorText (''Missing value for '' @ f @ msg))"
    by simp
  from this assms show ?thesis by (rule bspec)
qed

text \<open>
  Claim C8, as amended.  Let the flag be one of the fourteen that take a value, and let
  the arguments before it be parsed without an exit.  Then with the flag as the last
  argument the parser exits with status 1 after the error \<open>Missing value for\<close> that flag,
  and \<open>main\<close> ends with status 1 having constructed no producer and no consumer.
\<close>

theorem C8_missing_value:
  assumes flag: "flag \<in> set [''-p'', ''-c'', ''-f'', ''-n'', ''-w'', ''-s'', ''-o'', ''-p.device'',
                        ''-p.channel'', ''-p.rdma'', ''-p.time'', ''-c.device'', ''-c.channel'',
                        ''-c.rdma'']"
    and pre: "ParseArguments ENABLE_AJA strtol pre ProgramOptions = Parsed opts"
  shows "(\<exists>msg. ParseArguments ENABLE_AJA strtol (pre @ [flag]) ProgramOptions
            = Exited 1 (ErrorText (''Missing value for '' @ flag @ msg)))
     \<and> main ENABLE_AJA strtol tpu vsync_exceeds env (pre @ [flag]) = ([], ExitStatus 1)"
proof -
  obtain msg where "ParseArguments ENABLE_AJA strtol [flag] opts
           = Exited 1 (ErrorText (''Missing value for '' @ flag @ msg))"
    using ParseArguments_last_flag [OF flag] by blast
  then have p: "ParseArguments ENABLE_AJA strtol (pre @ [flag]) ProgramOptions
            = Exited 1 (ErrorText (''Missing value for '' @ flag @ msg))"
    using ParseArguments_append [OF pre, of "[flag]"] by simp
  then have "main ENABLE_AJA strtol tpu vsync_exceeds env (pre @ [flag]) = ([], ExitStatus 1)"
    by (simp add: main_def)
  with p show ?thesis by blast
qed

theorem C8_missing_value_witness:
  "''-n'' \<in> set [''-p'', ''-c'', ''-f'', ''-n'', ''-w'', ''-s'', ''-o'', ''-p.device'',
                        ''-p.channel'', ''-p.rdma'', ''-p.time'', ''-c.device'', ''-c.channel'',
                        ''-c.rdma'']
   \<and> ParseArguments False (\<lambda>s. 0) [''-p'', ''gl'', ''-c'', ''v4l2''] ProgramOptions
       = Parsed (ProgramOptions\<lparr>producerType := PRODUCER_GL, consumerType := CONSUMER_V4L2\<rparr>)
   \<and> main False (\<lambda>s. 0) 1000 (\<lambda>avg interval. False)
         \<lparr>CudaAlloc_ok = True, outputFile_open_ok = True, producer_Initialize = True,
          producer_StartStreaming = True, consumer_Initialize = True,
          consumer_StartStreaming = True, consumer_CaptureFrames = Some []\<rparr>
         [''-p'', ''gl'', ''-c'', ''v4l2'', ''-n''] = ([], ExitStatus 1)"
proof -
  have f: "''-n'' \<in> set [''-p'', ''-c'', ''-f'', ''-n'', ''-w'', ''-s'', ''-o'', ''-p.device'',
                        ''-p.channel'', ''-p.rdma'', ''-p.time'', ''-c.device'', ''-c.channel'',
                        ''-c.rdma'']" by simp
  have p: "ParseArguments False (\<lambda>s. 0) [''-p'', ''gl'', ''-c'', ''v4l2''] ProgramOptions
       = Parsed (ProgramOptions\<lparr>producerType := PRODUCER_GL, consumerType := CONSUMER_V4L2\<rparr>)"
    by simp
  from C8_missing_value [OF f p] f p show ?thesis by simp
qed

text \<open>
  Without the condition on the preceding arguments the claim fails: after \<open>-h\<close> the
  parser exits with status 0, and after \<open>-o\<close> the last argument \<open>-n\<close> is taken as the
  output file name, so that \<open>main\<close> goes on to construct the producer.
\<close>

theorem C8_last_argument_counterexample:
  "ParseArguments False (\<lambda>s. 0) [''-h'', ''-n''] ProgramOptions = Exited 0 UsageText
   \<and> main False (\<lambda>s. 0) 1000 (\<lambda>avg interval. False)
         \<lparr>CudaAlloc_ok = True, outputFile_open_ok = True, producer_Initialize = True,
          producer_StartStreaming = True, consumer_Initialize = True,
          consumer_StartStreaming = True, consumer_CaptureFrames = Some []\<rparr>
         [''-p'', ''gl'', ''-c'', ''none'', ''-o'', ''-n'']
       = ([ConstructProducer PRODUCER_GL], ExitStatus 0)"
  by (simp add: main_def construct_producer_def construct_consumer_def run_test_def
      ProgramOptions_def DEFAULT_SIMULATED_PROCESSING_def)

section \<open>Frame resolution\<close>

lemma scan_newest_first_None:
  "scan_newest_first matches xs newer = None \<Longrightarrow> \<forall>x \<in> set xs. \<not> matches x"
  by (induction xs arbitrary: newer) (auto split: if_splits)

lemma scan_newest_first_None_iff:
  "(scan_newest_first matches xs newer = None) = (\<forall>x \<in> set xs. \<not> matches x)"
  by (induction xs arbitrary: newer) auto

lemma scan_newest_first_Some:
  "scan_newest_first matches xs newer = Some (a, kept) \<Longrightarrow>
     \<exists>passed older. xs = passed @ a # older \<and> (\<forall>x \<in> set passed. \<not> matches x) \<and> matches a
        \<and> kept = a # rev passed @ newer"
proof (induction xs arbitrary: newer)
  case Nil
  then show ?case by simp
next
  case (Cons x xs)
  show ?case
  proof (cases "matches x")
    case True
    with Cons.prems have "a = x" "kept = x # newer" by auto
    with True show ?thesis by (intro exI [of _ "[]"] exI [of _ xs]) auto
  next
    case False
    with Cons.prems have "scan_newest_first matches xs (x # newer) = Some (a, kept)" by simp
    from Cons.IH [OF this] obtain passed older where
      p: "xs = passed @ a # older" "\<forall>x \<in> set passed. \<not> matches x" "matches a"
         "kept = a # rev passed @ x # newer"
      by blast
    with False show ?thesis
      by (intro exI [of _ "x # passed"] exI [of _ older]) simp
  qed
qed

text \<open>
  Claim C3.  \<open>GetFrame\<close> reads the first pixel's three channels and searches the
  retained list from the newest frame to the oldest for a frame whose colour is within 8
  units of the pixel on every channel.  When one is found it is returned, no newer frame
  matches, and the retained list keeps the match and the newer frames only; when none
  matches the result is empty and the list is unchanged.  For a list holding frames 5 and
  9 and a pixel of frame 9's colour, frame 9 is returned and frame 5 is evicted.
\<close>

theorem C3_GetFrame:
  "(case GetFrame heap m_frames ptr of
      (None, remaining) \<Rightarrow>
        remaining = m_frames
        \<and> (\<forall>a \<in> set m_frames. \<not> FuzzyMatch (heap a) (ptr 0) (ptr 1) (ptr 2) 8)
    | (Some frame, remaining) \<Rightarrow>
        (\<exists>older newer.
           m_frames = older @ frame # newer
           \<and> FuzzyMatch (heap frame) (ptr 0) (ptr 1) (ptr 2) 8
           \<and> (\<forall>a \<in> set newer. \<not> FuzzyMatch (heap a) (ptr 0) (ptr 1) (ptr 2) 8)
           \<and> remaining = frame # newer))
   \<and> (FuzzyMatch f r g b 8 =
        (channel_distance (R f) r \<le> 8 \<and> channel_distance (G f) g \<le> 8
         \<and> channel_distance (B f) b \<le> 8))
   \<and> GetFrame (\<lambda>a. if a = 0 then Frame 5 else Frame 9) [0, 1]
        (\<lambda>i. if i = 0 then R (Frame 9) else if i = 1 then G (Frame 9)
              else if i = 2 then B (Frame 9) else 255)
      = (Some 1, [1])"
proof -
  let ?m = "\<lambda>a. FuzzyMatch (heap a) (ptr 0) (ptr 1) (ptr 2) 8"
  have general: "case GetFrame heap m_frames ptr of
      (None, remaining) \<Rightarrow>
        remaining = m_frames \<and> (\<forall>a \<in> set m_frames. \<not> ?m a)
    | (Some frame, remaining) \<Rightarrow>
        (\<exists>older newer.
           m_frames = older @ frame # newer \<and> ?m frame
           \<and> (\<forall>a \<in> set newer. \<not> ?m a) \<and> remaining = frame # newer)"
  proof (cases "scan_newest_first ?m (rev m_frames) []")
    case None
    then have "\<forall>a \<in> set m_frames. \<not> ?m a"
      using scan_newest_first_None [of ?m "rev m_frames" "[]"] by simp
    with None show ?thesis by (simp add: GetFrame_def)
  next
    case (Some res)
    obtain frame kept where res: "res = (frame, kept)" by (cases res)
    from scan_newest_first_Some [OF Some [unfolded res]] obtain passed older where
      p: "rev m_frames = passed @ frame # older" "\<forall>x \<in> set passed. \<not> ?m x" "?m frame"
         "kept = frame # rev passed @ []"
      by blast
    from p(1) have "m_frames = rev older @ frame # rev passed"
      by (metis rev_rev_ident rev_append rev.simps(2) append.assoc append_Cons append_Nil)
    with p have "\<exists>older newer.
           m_frames = older @ frame # newer \<and> ?m frame
           \<and> (\<forall>a \<in> set newer. \<not> ?m a) \<and> kept = frame # newer"
      by (intro exI [of _ "rev older"] exI [of _ "rev passed"]) simp
    with Some res show ?thesis by (simp add: GetFrame_def)
  qed
  have fm: "FuzzyMatch f r g b 8 =
        (channel_distance (R f) r \<le> 8 \<and> channel_distance (G f) g \<le> 8
         \<and> channel_distance (B f) b \<le> 8)"
    by (simp add: FuzzyMatch_def)
  have ex: "GetFrame (\<lambda>a. if a = 0 then Frame 5 else Frame 9) [0, 1]
        (\<lambda>i. if i = 0 then R (Frame 9) else if i = 1 then G (Frame 9)
              else if i = 2 then B (Frame 9) else 255)
      = (Some 1, [1])"
    by (simp add: GetFrame_def FuzzyMatch_def channel_distance_def R_def G_def B_def Frame_def)
  from general fm ex show ?thesis by blast
qed

theorem C3_GetFrame_witness:
  "GetFrame (\<lambda>a. if a = 0 then Frame 5 else Frame 9) [0, 1]
        (\<lambda>i. if i = 0 then R (Frame 9) else if i = 1 then G (Frame 9)
              else if i = 2 then B (Frame 9) else 255)
      = (Some 1, [1])
   \<and> (\<exists>older newer. [0, 1 :: nat] = older @ 1 # newer
         \<and> FuzzyMatch (Frame 9) (R (Frame 9)) (G (Frame 9)) (B (Frame 9)) 8
         \<and> [1 :: nat] = 1 # newer)"
proof -
  let ?heap = "\<lambda>a :: nat. if a = 0 then Frame 5 else Frame 9"
  let ?ptr = "\<lambda>i :: nat. if i = 0 then R (Frame 9) else if i = 1 then G (Frame 9)
              else if i = 2 then B (Frame 9) else 255"
  note t = C3_GetFrame [where heap = ?heap and m_frames = "[0, 1]" and ptr = ?ptr]
  have ex: "GetFrame ?heap [0, 1] ?ptr = (Some 1, [1])"
    by (rule t [THEN conjunct2, THEN conjunct2])
  have "\<exists>older newer. [0, 1 :: nat] = older @ 1 # newer
         \<and> FuzzyMatch (Frame 9) (R (Frame 9)) (G (Frame 9)) (B (Frame 9)) 8
         \<and> [1 :: nat] = 1 # newer"
    using t [THEN conjunct1] unfolding ex by simp
  with ex show ?thesis by blast
qed

end
